theory Spec2Isabelle
  imports Complex_Main "HOL-Library.Multiset"
begin

chapter \<open>The model\<close>

section \<open>Machine integers\<close>

text \<open>
  A C \<open>int\<close> has 32 bits. Integers of the sources are modelled as \<open>int\<close>, with the
  range written out where the source computes: an \<open>int\<close> computation whose result is
  outside the range is undefined behaviour in C, and the model has no result there.
\<close>

definition INT_MAX :: int where
  "INT_MAX = 2147483647"

definition INT_MIN :: int where
  "INT_MIN = - 2147483648"

definition is_int :: "int \<Rightarrow> bool" where
  "is_int x = (INT_MIN \<le> x \<and> x \<le> INT_MAX)"

section \<open>Cross-correlation transform (src/c/cuda/crux\_cuda\_test.c)\<close>

text \<open>
  The host reference implementation \<open>do_cross_correlation_obs(in, ans, n, max_offset)\<close>.
  The C arrays are lists of values of a type \<open>'f\<close> that stands for \<open>float\<close>. The one
  arithmetic step of the function, \<open>ans[idx] -= (in[sub_idx] / (MAX_XCORR_OFFSET * 2.0))\<close>,
  is a parameter \<open>minus_quotient\<close> of the model: \<open>minus_quotient a x d\<close> is what the
  machine stores for \<open>a -= x / d\<close>, rounded, infinite or not a number as it may be.
  The two buffers are separate objects (as in \<open>main\<close>, which passes \<open>h_values\<close> and
  \<open>h_ans2\<close>).
\<close>

definition MAX_XCORR_OFFSET :: int where
  "MAX_XCORR_OFFSET = 75"

text \<open>
  The step in exact arithmetic on real numbers: what the machine would store if
  \<open>float\<close> neither rounded nor overflowed.
\<close>

definition exact_minus_quotient :: "real \<Rightarrow> real \<Rightarrow> int \<Rightarrow> real" where
  "exact_minus_quotient a x d = a - x / real_of_int d"

text \<open>
  The inner loop \<open>for (sub_idx = idx - max_offset; sub_idx <= idx + max_offset; sub_idx++)\<close>:
  \<open>hi\<close> is \<open>idx + max_offset\<close>, \<open>acc\<close> is the running value of \<open>ans[idx]\<close>. At
  \<open>sub_idx = INT_MAX\<close> the increment overflows, and the loop has no result.
\<close>

function sub_idx_loop ::
  "('f \<Rightarrow> 'f \<Rightarrow> int \<Rightarrow> 'f) \<Rightarrow> 'f list \<Rightarrow> int \<Rightarrow> int \<Rightarrow> int \<Rightarrow> 'f \<Rightarrow> 'f option" where
  "sub_idx_loop minus_quotient inp n hi sub_idx acc =
     (if sub_idx \<le> hi then
        (if sub_idx = INT_MAX then None
         else if sub_idx \<le> 0 \<or> sub_idx \<ge> n then
           sub_idx_loop minus_quotient inp n hi (sub_idx + 1) acc
         else
           sub_idx_loop minus_quotient inp n hi (sub_idx + 1)
             (minus_quotient acc (inp ! nat sub_idx) (MAX_XCORR_OFFSET * 2)))
      else Some acc)"
  by pat_completeness auto
termination
  by (relation "measure (\<lambda>(minus_quotient, inp, n, hi, sub_idx, acc). nat (hi + 1 - sub_idx))")
     auto

text \<open>
  The outer loop \<open>for (idx = 0; idx < n; idx++)\<close>, writing \<open>ans[idx]\<close>. The bounds
  \<open>idx - max_offset\<close> and \<open>idx + max_offset\<close> of the inner loop are \<open>int\<close> computations.
\<close>

function idx_loop ::
  "('f \<Rightarrow> 'f \<Rightarrow> int \<Rightarrow> 'f) \<Rightarrow> 'f list \<Rightarrow> int \<Rightarrow> int \<Rightarrow> int \<Rightarrow> 'f list \<Rightarrow> 'f list option" where
  "idx_loop minus_quotient inp n max_offset idx ans =
     (if idx < n then
        (if \<not> is_int (idx - max_offset) \<or> \<not> is_int (idx + max_offset) then None
         else
           (case sub_idx_loop minus_quotient inp n (idx + max_offset) (idx - max_offset)
                   (inp ! nat idx) of
              None \<Rightarrow> None
            | Some v \<Rightarrow> idx_loop minus_quotient inp n max_offset (idx + 1) (ans[nat idx := v])))
      else Some ans)"
  by pat_completeness auto
termination
  by (relation "measure (\<lambda>(minus_quotient, inp, n, max_offset, idx, ans). nat (n - idx))") auto

declare sub_idx_loop.simps [simp del] idx_loop.simps [simp del]

text \<open>
  The function itself. \<open>n\<close> and \<open>max_offset\<close> are \<open>int\<close>s. The function reads
  \<open>in[0..n-1]\<close> and writes \<open>ans[0..n-1]\<close>; a call whose buffers are shorter than \<open>n\<close>
  is undefined behaviour in C and is \<open>None\<close> here, as is a call in which an \<open>int\<close>
  computation overflows. \<open>ans\<close> is the output buffer's content before the call.
\<close>

definition do_cross_correlation_obs ::
  "('f \<Rightarrow> 'f \<Rightarrow> int \<Rightarrow> 'f) \<Rightarrow> 'f list \<Rightarrow> 'f list \<Rightarrow> int \<Rightarrow> int \<Rightarrow> 'f list option" where
  "do_cross_correlation_obs minus_quotient inp ans n max_offset =
     (if \<not> is_int n \<or> \<not> is_int max_offset then None
      else if n \<le> 0 then Some ans
      else if n \<le> int (length inp) \<and> n \<le> int (length ans)
      then idx_loop minus_quotient inp n max_offset 0 ans
      else None)"

text \<open>
  The transform as the specification words it: the intensity at \<open>i\<close> minus the average
  of the intensities in the window \<open>[i - max_offset, i + max_offset]\<close>, without \<open>i\<close>
  itself and without the indices \<open>\<le> 0\<close> or \<open>\<ge> n\<close>. Only used for comparison with
  the code.
\<close>

definition spec_cross_correlation :: "real list \<Rightarrow> int \<Rightarrow> int \<Rightarrow> int \<Rightarrow> real" where
  "spec_cross_correlation inp n max_offset i =
     inp ! nat i -
       (\<Sum>j \<in> {j \<in> {i - max_offset..i + max_offset}. j \<noteq> i \<and> 0 < j \<and> j < n}. inp ! nat j) /
         real (card {j \<in> {i - max_offset..i + max_offset}. j \<noteq> i \<and> 0 < j \<and> j < n})"

text \<open>The scenario of the specification: peaks of intensity 100 at bins 10, 50 and 90.\<close>

definition three_peaks :: "real list" where
  "three_peaks = (replicate 100 0)[10 := 100, 50 := 100, 90 := 100]"

section \<open>Output files (src/c/OutputFiles.cpp)\<close>

text \<open>
  The class \<open>OutputFiles\<close> owns one array of files per format, each with \<open>num_files_\<close>
  entries (the target file first, then the decoy files). The members are the fields of
  the record, written without the trailing underscore of the C++ names.

  Objects that the class only passes on are named by their address: a pointer is
  \<open>None\<close> when it is \<open>NULL\<close> and \<open>Some a\<close> when it points to the object at \<open>a\<close>.
  The printing routines (\<open>print_xml_footer\<close>, \<open>print_match_collection_tab_delimited\<close>,
  \<open>print_match_collection_sqt\<close>, \<open>print_match_collection_xml\<close>,
  \<open>print_matches_multi_spectra\<close>) are defined outside these sources; a call of one
  of them is recorded, with its arguments, at the end of every file it is given, so
  that a file is the list of the calls that wrote to it, in order.
\<close>

type_synonym MATCH_COLLECTION_T = nat
type_synonym Spectrum = nat
type_synonym SCORER_TYPE_T = nat

text \<open>
  The values of \<open>COMMAND_T\<close> that the sources name (its declaration is outside them).
\<close>

datatype COMMAND_T =
    SEARCH_COMMAND
  | SEQUEST_COMMAND
  | PERCOLATOR_COMMAND
  | QRANKER_COMMAND
  | SPECTRAL_COUNTS_COMMAND
  | PROCESS_SPEC_COMMAND

datatype file_event =
    XmlFooter
  | TabMatches int "MATCH_COLLECTION_T option" "Spectrum option" SCORER_TYPE_T
  | MultiSpectraTab "MATCH_COLLECTION_T option"
  | SqtMatches int "MATCH_COLLECTION_T option" "Spectrum option"
  | XmlMatches int "MATCH_COLLECTION_T option" "Spectrum option" SCORER_TYPE_T int

type_synonym out_file = "file_event list"

text \<open>
  \<open>carp(CARP_FATAL, ...)\<close> ends the process; it is the \<open>Inl\<close> of a result. The
  constructors are the fatal messages of the modelled functions, with their arguments.
\<close>

datatype fatal =
    WrongDecoyCount int int
  | InvalidStopAfter string
  | CouldNotReadSpectra string

record OutputFiles =
  matches_per_spec :: int
  command :: COMMAND_T
  num_files :: int
  target_decoy_list :: "string list"
  delim_file_array :: "out_file list option"
  xml_file_array :: "out_file list option"
  sqt_file_array :: "out_file list option"
  feature_file :: "out_file option"

text \<open>
  The parameters the constructor reads: \<open>top-match\<close>, \<open>num-decoy-files\<close> and
  \<open>feature-file\<close>.
\<close>

record parameters =
  top_match :: int
  num_decoy_files :: int
  feature_file_parameter :: bool

subsection \<open>makeTargetDecoyList\<close>

text \<open>\<open>name_builder << file_idx\<close>: an integer \<open>\<ge> 0\<close> in decimal.\<close>

function decimal :: "nat \<Rightarrow> string" where
  "decimal n =
     (if n < 10 then [char_of (48 + n)]
      else decimal (n div 10) @ [char_of (48 + n mod 10)])"
  by pat_completeness auto
termination
  by (relation "measure id") auto

declare decimal.simps [simp del]

text \<open>
  What it is for a string to be the decimal numeral of a number, stated without
  \<open>decimal\<close>: the string is not empty, each character is one of \<open>0\<close> to \<open>9\<close>, a
  string of more than one character does not begin with \<open>0\<close>, and the digits have the
  number as their value. Only used to state what \<open>decimal\<close> returns.
\<close>

definition digits_value :: "string \<Rightarrow> nat" where
  "digits_value ds = foldl (\<lambda>a c. 10 * a + (of_char c - of_char CHR ''0'')) 0 ds"

definition is_decimal_of :: "string \<Rightarrow> nat \<Rightarrow> bool" where
  "is_decimal_of ds n =
     (ds \<noteq> [] \<and>
      list_all (\<lambda>c. (of_char CHR ''0'' :: nat) \<le> of_char c \<and>
                     (of_char c :: nat) \<le> of_char CHR ''9'') ds \<and>
      (1 < length ds \<longrightarrow> hd ds \<noteq> CHR ''0'') \<and>
      digits_value ds = n)"

text \<open>
  \<open>makeTargetDecoyList\<close> allocates \<open>num_files_\<close> strings and writes entry 0, so a
  call with \<open>num_files_ < 1\<close> writes outside the array (or fails to allocate): \<open>None\<close>.
  The loop \<open>for (file_idx = 1; file_idx < num_files_; file_idx++)\<close> fills one entry per
  index, here the \<open>map\<close> over the indices.
\<close>

definition makeTargetDecoyList :: "int \<Rightarrow> string list option" where
  "makeTargetDecoyList nfiles =
     (if nfiles < 1 then None
      else if nfiles = 2 then Some [''target'', ''decoy'']
      else Some (''target'' # map (\<lambda>file_idx. ''decoy-'' @ decimal file_idx) [1..<nat nfiles]))"

subsection \<open>The constructor\<close>

text \<open>
  \<open>createFiles\<close>: \<open>num_files_\<close> new files, or no array at all when \<open>num_files_ = 0\<close>.
  Files are taken to open; their names are not modelled.
\<close>

definition createFiles :: "int \<Rightarrow> out_file list option" where
  "createFiles nfiles = (if nfiles = 0 then None else Some (replicate (nat nfiles) []))"

definition OutputFiles_new :: "parameters \<Rightarrow> COMMAND_T \<Rightarrow> OutputFiles option" where
  "OutputFiles_new p program_name =
     (let nfiles =
            (if program_name \<noteq> SEARCH_COMMAND \<and> program_name \<noteq> SEQUEST_COMMAND then 1
             else num_decoy_files p + 1)
      in case makeTargetDecoyList nfiles of
           None \<Rightarrow> None
         | Some names \<Rightarrow>
             Some \<lparr> matches_per_spec = top_match p,
                    command = program_name,
                    num_files = nfiles,
                    target_decoy_list = names,
                    delim_file_array = createFiles nfiles,
                    xml_file_array =
                      (if program_name \<noteq> SPECTRAL_COUNTS_COMMAND then createFiles nfiles
                       else None),
                    sqt_file_array =
                      (if program_name = SEQUEST_COMMAND then createFiles nfiles else None),
                    feature_file =
                      (if (program_name = PERCOLATOR_COMMAND \<or> program_name = QRANKER_COMMAND)
                          \<and> feature_file_parameter p
                       then Some [] else None) \<rparr>)"

subsection \<open>writeFooters\<close>

text \<open>The loop \<open>for (file_idx = 0; file_idx < num_files_; file_idx++)\<close> of \<open>writeFooters\<close>.\<close>

function footers_loop :: "int \<Rightarrow> int \<Rightarrow> out_file list \<Rightarrow> out_file list" where
  "footers_loop nfiles file_idx files =
     (if file_idx < nfiles then
        footers_loop nfiles (file_idx + 1)
          (files[nat file_idx := files ! nat file_idx @ [XmlFooter]])
      else files)"
  by pat_completeness auto
termination
  by (relation "measure (\<lambda>(nfiles, file_idx, files). nat (nfiles - file_idx))") auto

declare footers_loop.simps [simp del]

definition writeFooters :: "OutputFiles \<Rightarrow> OutputFiles" where
  "writeFooters ofs =
     (case xml_file_array ofs of
        None \<Rightarrow> ofs
      | Some files \<Rightarrow> ofs\<lparr>xml_file_array := Some (footers_loop (num_files ofs) 0 files)\<rparr>)"

subsection \<open>writeMatches\<close>

text \<open>
  The loop shared by \<open>printMatchesTab\<close> (its branch for one spectrum),
  \<open>printMatchesSqt\<close> and \<open>printMatchesXml\<close>: file \<open>file_idx\<close> receives \<open>cur_matches\<close>,
  which then moves on to \<open>decoy_matches_array[file_idx]\<close> when the array has that
  entry. \<open>print\<close> is the printing call of the format.
\<close>

function matches_loop ::
  "(MATCH_COLLECTION_T option \<Rightarrow> file_event) \<Rightarrow> int \<Rightarrow> MATCH_COLLECTION_T option list \<Rightarrow>
   int \<Rightarrow> MATCH_COLLECTION_T option \<Rightarrow> out_file list \<Rightarrow> out_file list" where
  "matches_loop print nfiles decoy_matches_array file_idx cur_matches files =
     (if file_idx < nfiles then
        matches_loop print nfiles decoy_matches_array (file_idx + 1)
          (if int (length decoy_matches_array) > file_idx
           then decoy_matches_array ! nat file_idx else cur_matches)
          (files[nat file_idx := files ! nat file_idx @ [print cur_matches]])
      else files)"
  by pat_completeness auto
termination
  by (relation "measure (\<lambda>(print, nfiles, decoys, file_idx, cur, files).
        nat (nfiles - file_idx))") auto

declare matches_loop.simps [simp del]

definition printMatchesTab ::
  "OutputFiles \<Rightarrow> MATCH_COLLECTION_T option \<Rightarrow> MATCH_COLLECTION_T option list \<Rightarrow>
   SCORER_TYPE_T \<Rightarrow> Spectrum option \<Rightarrow> OutputFiles" where
  "printMatchesTab ofs target_matches decoy_matches_array rank_type spectrum =
     (case delim_file_array ofs of
        None \<Rightarrow> ofs
      | Some files \<Rightarrow>
          (if spectrum \<noteq> None then
             ofs\<lparr>delim_file_array :=
                   Some (matches_loop
                           (\<lambda>cur. TabMatches (matches_per_spec ofs) cur spectrum rank_type)
                           (num_files ofs) decoy_matches_array 0 target_matches files)\<rparr>
           else
             ofs\<lparr>delim_file_array :=
                   Some (let files0 = files[0 := files ! 0 @ [MultiSpectraTab target_matches]]
                         in if num_files ofs > 1
                            then files0[1 := files0 ! 1 @ [MultiSpectraTab target_matches]]
                            else files0)\<rparr>))"

definition printMatchesSqt ::
  "OutputFiles \<Rightarrow> MATCH_COLLECTION_T option \<Rightarrow> MATCH_COLLECTION_T option list \<Rightarrow>
   Spectrum option \<Rightarrow> OutputFiles" where
  "printMatchesSqt ofs target_matches decoy_matches_array spectrum =
     (case sqt_file_array ofs of
        None \<Rightarrow> ofs
      | Some files \<Rightarrow>
          ofs\<lparr>sqt_file_array :=
                Some (matches_loop (\<lambda>cur. SqtMatches (matches_per_spec ofs) cur spectrum)
                        (num_files ofs) decoy_matches_array 0 target_matches files)\<rparr>)"

text \<open>
  \<open>printMatchesXml\<close> keeps a counter in a function-local \<open>static int index = 1\<close>; the
  counter is passed in and returned here.
\<close>

definition printMatchesXml ::
  "OutputFiles \<Rightarrow> int \<Rightarrow> MATCH_COLLECTION_T option \<Rightarrow> MATCH_COLLECTION_T option list \<Rightarrow>
   Spectrum option \<Rightarrow> SCORER_TYPE_T \<Rightarrow> OutputFiles \<times> int" where
  "printMatchesXml ofs index target_matches decoy_matches_array spectrum rank_type =
     (case xml_file_array ofs of
        None \<Rightarrow> (ofs, index)
      | Some files \<Rightarrow>
          (ofs\<lparr>xml_file_array :=
                 Some (matches_loop
                         (\<lambda>cur. XmlMatches (matches_per_spec ofs) cur spectrum rank_type index)
                         (num_files ofs) decoy_matches_array 0 target_matches files)\<rparr>,
           index + 1))"

text \<open>
  \<open>writeMatches(target_matches, decoy_matches_array, rank_type, spectrum)\<close>; \<open>index\<close>
  is the counter of \<open>printMatchesXml\<close>.
\<close>

definition writeMatches ::
  "OutputFiles \<Rightarrow> int \<Rightarrow> MATCH_COLLECTION_T option \<Rightarrow> MATCH_COLLECTION_T option list \<Rightarrow>
   SCORER_TYPE_T \<Rightarrow> Spectrum option \<Rightarrow> fatal + OutputFiles \<times> int" where
  "writeMatches ofs index target_matches decoy_matches_array rank_type spectrum =
     (if target_matches = None then Inr (ofs, index)
      else if int (length decoy_matches_array) \<noteq> num_files ofs - 1 then
        Inl (WrongDecoyCount (int (length decoy_matches_array)) (num_files ofs - 1))
      else
        Inr (printMatchesXml
               (printMatchesSqt
                  (printMatchesTab ofs target_matches decoy_matches_array rank_type spectrum)
                  target_matches decoy_matches_array spectrum)
               index target_matches decoy_matches_array spectrum rank_type))"

text \<open>Values for the concrete cases below.\<close>

definition decoy_parameters :: "int \<Rightarrow> parameters" where
  "decoy_parameters k = \<lparr> top_match = 5, num_decoy_files = k, feature_file_parameter = False \<rparr>"

definition two_decoy_parameters :: parameters where
  "two_decoy_parameters = \<lparr> top_match = 5, num_decoy_files = 2, feature_file_parameter = False \<rparr>"

section \<open>Reading tab-delimited files (src/c/DelimitedFileReader.cpp)\<close>

text \<open>
  The members of \<open>DelimitedFileReader\<close> are the fields of the record, written without
  the trailing underscore of the C++ names. \<open>file_ptr\<close> stands for the stream that
  \<open>file_ptr_\<close> points to. \<open>carp_log\<close> is not a member: it collects what the reader
  prints through \<open>carp\<close>. \<open>current_row_\<close> is an \<open>unsigned int\<close>: a natural number
  below \<open>2^32\<close>, and its increment wraps.

  A text file is its lines, and whether the last of them ends with a newline. A
  stream holds the lines it has not delivered yet and whether its state is still good
  (neither \<open>eofbit\<close> nor \<open>failbit\<close> is set).
\<close>

record text_file =
  file_lines :: "string list"
  final_newline :: bool

record fstream =
  lines_left :: "string list"
  ends_with_newline :: bool
  good :: bool

text \<open>
  \<open>new fstream(file_name, ios::in)\<close>, where \<open>contents\<close> is what the file system holds
  under the name: the file, or \<open>None\<close> when no file can be opened (the stream is then
  not open and not good).
\<close>

definition open_fstream :: "text_file option \<Rightarrow> fstream" where
  "open_fstream contents =
     (case contents of
        None \<Rightarrow> \<lparr> lines_left = [], ends_with_newline = False, good = False \<rparr>
      | Some file \<Rightarrow>
          \<lparr> lines_left = file_lines file, ends_with_newline = final_newline file,
            good = True \<rparr>)"

text \<open>
  \<open>getline(stream, str) != NULL\<close>: the stream and the string after the call, and
  whether the call succeeded. A stream that is not good leaves the string alone and
  fails. A good stream at the end of the file empties the string and fails. Otherwise
  the next line is delivered; reading a last line that has no newline sets \<open>eofbit\<close>.
\<close>

definition getline :: "fstream \<Rightarrow> string \<Rightarrow> fstream \<times> string \<times> bool" where
  "getline stream str =
     (if \<not> good stream then (stream, str, False)
      else case lines_left stream of
             [] \<Rightarrow> (stream\<lparr>good := False\<rparr>, [], False)
           | line # rest \<Rightarrow>
               (stream\<lparr>lines_left := rest, good := (rest \<noteq> [] \<or> ends_with_newline stream)\<rparr>,
                line, True))"

datatype carp_message =
    ColumnCountWarning nat nat nat
  | CurrentLineWarning string
  | SuppressingWarning
  | OpenFailedError string
  | NoDataWarning

record DelimitedFileReader =
  column_names :: "string list"
  data :: "string list"
  current_data_string :: string
  next_data_string :: string
  current_row :: nat
  has_next :: bool
  has_current :: bool
  column_mismatch_warned :: bool
  has_header :: bool
  file_name :: string
  num_rows_valid :: bool
  file_ptr :: fstream
  carp_log :: "carp_message list"

text \<open>
  \<open>DelimitedFile::tokenize(str, tokens, delimiter)\<close> and
  \<open>DelimitedFile::from_string(value, str)\<close> are defined outside these sources. Both
  work on a reference argument, so each is a parameter of the model that maps the
  argument's content before the call to its content after it.
\<close>

type_synonym tokenizer = "string \<Rightarrow> string list \<Rightarrow> char \<Rightarrow> string list"

definition TAB :: char where
  "TAB = CHR 0x09"

text \<open>\<open>has_next_ = getline(*file_ptr_, next_data_string_) != NULL\<close>.\<close>

definition read_next_line :: "DelimitedFileReader \<Rightarrow> DelimitedFileReader" where
  "read_next_line r =
     (case getline (file_ptr r) (next_data_string r) of
        (stream, str, ok) \<Rightarrow> r\<lparr>file_ptr := stream, next_data_string := str, has_next := ok\<rparr>)"

text \<open>
  The loop \<open>while (data_.size() < column_names_.size()) data_.push_back(string(""))\<close>.
\<close>

function push_back_empty :: "nat \<Rightarrow> string list \<Rightarrow> string list" where
  "push_back_empty columns cells =
     (if length cells < columns then push_back_empty columns (cells @ [[]]) else cells)"
  by pat_completeness auto
termination
  by (relation "measure (\<lambda>(columns, cells). columns - length cells)") auto

declare push_back_empty.simps [simp del]

text \<open>\<open>DelimitedFileReader::next()\<close>.\<close>

definition DelimitedFileReader_next :: "tokenizer \<Rightarrow> DelimitedFileReader \<Rightarrow> DelimitedFileReader" where
  "DelimitedFileReader_next tokenize r =
     (if has_next r then
        (let r1 = r\<lparr>current_row := (current_row r + 1) mod 2 ^ 32,
                    current_data_string := next_data_string r,
                    data := tokenize (next_data_string r) (data r) TAB\<rparr>;
             r2 = (if length (data r1) < length (column_names r1) then
                     (let r1w =
                            (if \<not> column_mismatch_warned r1 then
                               r1\<lparr>carp_log := carp_log r1 @
                                     [ColumnCountWarning (length (data r1)) (current_row r1)
                                        (length (column_names r1)),
                                      CurrentLineWarning (current_data_string r1),
                                      SuppressingWarning],
                                   column_mismatch_warned := True\<rparr>
                             else r1)
                      in r1w\<lparr>data := push_back_empty (length (column_names r1w)) (data r1w)\<rparr>)
                   else r1)
         in (read_next_line r2)\<lparr>has_current := True\<rparr>)
      else r\<lparr>has_current := False\<rparr>)"

text \<open>
  \<open>DelimitedFileReader::loadData(file_name, hasHeader)\<close> up to its last statement,
  \<open>if (has_next_) next();\<close>. The result is the reader at that point, and whether
  \<open>loadData\<close> has returned before reaching it.
\<close>

definition loadData_header ::
  "tokenizer \<Rightarrow> DelimitedFileReader \<Rightarrow> string \<Rightarrow> text_file option \<Rightarrow> bool \<Rightarrow>
   DelimitedFileReader \<times> bool" where
  "loadData_header tokenize r name contents hasHeader =
     (let r0 = r\<lparr>file_name := name, has_header := hasHeader, num_rows_valid := False,
                 column_names := [], file_ptr := open_fstream contents,
                 current_row := 0, column_mismatch_warned := False\<rparr>
      in if contents = None then (r0\<lparr>carp_log := carp_log r0 @ [OpenFailedError name]\<rparr>, True)
         else
           (let r1 = read_next_line r0 in
            if hasHeader then
              (if has_next r1 then
                 (read_next_line
                    (r1\<lparr>column_names :=
                          tokenize (next_data_string r1) (column_names r1) TAB\<rparr>),
                  False)
               else (r1\<lparr>carp_log := carp_log r1 @ [NoDataWarning]\<rparr>, True))
            else (r1, False)))"

text \<open>\<open>DelimitedFileReader::loadData(file_name, hasHeader)\<close>.\<close>

definition loadData ::
  "tokenizer \<Rightarrow> DelimitedFileReader \<Rightarrow> string \<Rightarrow> text_file option \<Rightarrow> bool \<Rightarrow>
   DelimitedFileReader" where
  "loadData tokenize r name contents hasHeader =
     (case loadData_header tokenize r name contents hasHeader of
        (r', returned) \<Rightarrow>
          if \<not> returned \<and> has_next r' then DelimitedFileReader_next tokenize r' else r')"

text \<open>
  Words for the statements about a whole file. \<open>rows_read ... k\<close> is the reader when
  \<open>next()\<close> has been called \<open>k\<close> times since \<open>loadData\<close> opened the file and read the
  header; the first of these calls is the one \<open>loadData\<close> makes itself. A reader is
  before a short row when the line that its next call of \<open>next()\<close> reads has fewer
  cells than the header has columns; \<open>mismatch_warning\<close> is the warning for that row
  and \<open>padded_row\<close> the row filled up with empty cells.
\<close>

definition rows_read ::
  "tokenizer \<Rightarrow> DelimitedFileReader \<Rightarrow> string \<Rightarrow> text_file option \<Rightarrow> bool \<Rightarrow> nat \<Rightarrow>
   DelimitedFileReader" where
  "rows_read tokenize r name contents hasHeader k =
     (DelimitedFileReader_next tokenize ^^ k)
       (fst (loadData_header tokenize r name contents hasHeader))"

definition short_row :: "tokenizer \<Rightarrow> DelimitedFileReader \<Rightarrow> bool" where
  "short_row tokenize s =
     (has_next s \<and>
      length (tokenize (next_data_string s) (data s) TAB) < length (column_names s))"

definition mismatch_warning :: "tokenizer \<Rightarrow> DelimitedFileReader \<Rightarrow> carp_message list" where
  "mismatch_warning tokenize s =
     [ColumnCountWarning (length (tokenize (next_data_string s) (data s) TAB))
        ((current_row s + 1) mod 2 ^ 32) (length (column_names s)),
      CurrentLineWarning (next_data_string s), SuppressingWarning]"

definition padded_row :: "tokenizer \<Rightarrow> DelimitedFileReader \<Rightarrow> string list" where
  "padded_row tokenize s =
     tokenize (next_data_string s) (data s) TAB @
       replicate
         (length (column_names s) - length (tokenize (next_data_string s) (data s) TAB)) []"

subsection \<open>Reading a cell as a number\<close>

text \<open>
  A floating-point value is either one of the two infinities or a finite number; only
  this distinction matters below, and a finite value is an exact rational.
  \<open>data_.at(col_idx)\<close> throws \<open>std::out_of_range\<close> for an index outside the row.
\<close>

datatype fp_value = Finite rat | PlusInfinity | MinusInfinity

datatype reader_error = OutOfRange

definition getString :: "DelimitedFileReader \<Rightarrow> nat \<Rightarrow> reader_error + string" where
  "getString r col_idx =
     (if col_idx < length (data r) then Inr (data r ! col_idx) else Inl OutOfRange)"

text \<open>
  \<open>getValue<TValue>(col_idx)\<close> declares \<open>TValue type_ans;\<close> without initialising it,
  hands it to \<open>from_string\<close> and returns it. \<open>uninitialised\<close> is the content of the
  variable before the call of \<open>from_string\<close>.
\<close>

definition getValue ::
  "('v \<Rightarrow> string \<Rightarrow> 'v) \<Rightarrow> 'v \<Rightarrow> DelimitedFileReader \<Rightarrow> nat \<Rightarrow> reader_error + 'v" where
  "getValue from_string uninitialised r col_idx =
     (case getString r col_idx of
        Inl e \<Rightarrow> Inl e
      | Inr string_ans \<Rightarrow> Inr (from_string uninitialised string_ans))"

definition getFloat ::
  "(fp_value \<Rightarrow> string \<Rightarrow> fp_value) \<Rightarrow> fp_value \<Rightarrow> DelimitedFileReader \<Rightarrow> nat \<Rightarrow>
   reader_error + fp_value" where
  "getFloat from_string uninitialised r col_idx =
     (case getString r col_idx of
        Inl e \<Rightarrow> Inl e
      | Inr string_ans \<Rightarrow>
          (if string_ans = ''Inf'' then Inr PlusInfinity
           else if string_ans = ''-Inf'' then Inr MinusInfinity
           else getValue from_string uninitialised r col_idx))"

definition getDouble ::
  "(fp_value \<Rightarrow> string \<Rightarrow> fp_value) \<Rightarrow> fp_value \<Rightarrow> DelimitedFileReader \<Rightarrow> nat \<Rightarrow>
   reader_error + fp_value" where
  "getDouble from_string uninitialised r col_idx =
     (case getString r col_idx of
        Inl e \<Rightarrow> Inl e
      | Inr string_ans \<Rightarrow>
          (if string_ans = [] then Inr (Finite 0)
           else if string_ans = ''Inf'' then Inr PlusInfinity
           else if string_ans = ''-Inf'' then Inr MinusInfinity
           else getValue from_string uninitialised r col_idx))"

text \<open>
  Values for the concrete cases below: a tokenizer that overwrites the vector with the
  pieces of the line between the delimiters, a reader before its first \<open>loadData\<close>,
  and a file with a header of three columns whose second and third rows are short.
\<close>

fun split_on :: "char \<Rightarrow> string \<Rightarrow> string \<Rightarrow> string list" where
  "split_on d cell [] = [rev cell]"
| "split_on d cell (c # cs) =
     (if c = d then rev cell # split_on d [] cs else split_on d (c # cell) cs)"

definition split_tokenize :: tokenizer where
  "split_tokenize str tokens delimiter = split_on delimiter [] str"

definition fresh_reader :: DelimitedFileReader where
  "fresh_reader =
     \<lparr> column_names = [], data = [], current_data_string = [], next_data_string = [],
       current_row = 0, has_next = False, has_current = False,
       column_mismatch_warned = False, has_header = False, file_name = [],
       num_rows_valid = False,
       file_ptr = \<lparr> lines_left = [], ends_with_newline = False, good = False \<rparr>,
       carp_log = [] \<rparr>"

definition short_rows_file :: text_file where
  "short_rows_file =
     \<lparr> file_lines =
         [[CHR ''a'', TAB, CHR ''b'', TAB, CHR ''c''],
          [CHR ''1'', TAB, CHR ''2'', TAB, CHR ''3''],
          [CHR ''4'', TAB, CHR ''5''],
          [CHR ''6'']],
       final_newline = True \<rparr>"

text \<open>A reader that has warned about a short row of an earlier file.\<close>

definition warned_reader :: DelimitedFileReader where
  "warned_reader = fresh_reader\<lparr>column_mismatch_warned := True\<rparr>"

section \<open>The print-processed-spectra command (src/app/PrintProcessedSpectra.cpp)\<close>








section \<open>Hit collections (src/c/hit\_collection.c)\<close>

text \<open>
  \<open>struct hit_collection\<close>: the array \<open>hits\<close> of \<open>_MAX_NUMBER_HITS\<close> pointers and the
  counter \<open>hit_total\<close>. A hit is named by its address, \<open>None\<close> is \<open>NULL\<close>. The macro
  \<open>_MAX_NUMBER_HITS\<close> is defined outside these sources and is a parameter of the model;
  the list \<open>hits\<close> has that length.
\<close>

type_synonym HIT_T = nat

record hit_collection =
  hits :: "HIT_T option list"
  hit_total :: int

text \<open>\<open>allocate_hit_collection\<close>: \<open>mycalloc\<close> gives zeroed memory.\<close>

definition allocate_hit_collection :: "nat \<Rightarrow> hit_collection" where
  "allocate_hit_collection MAX_NUMBER_HITS =
     \<lparr> hits = replicate MAX_NUMBER_HITS None, hit_total = 0 \<rparr>"

text \<open>
  \<open>hit_collection_add_hit\<close> is the one statement
  \<open>hit_collection->hits[hit_collection->hit_total++] = hit\<close> followed by \<open>return TRUE\<close>.
  The function compares \<open>hit_total\<close> with nothing. A write at an index outside the
  array is undefined behaviour in C; the model keeps it apart as \<open>Inl\<close> of the index.
\<close>

datatype memory_fault = WriteOutsideHits int

definition hit_collection_add_hit ::
  "nat \<Rightarrow> hit_collection \<Rightarrow> HIT_T option \<Rightarrow> memory_fault + hit_collection \<times> bool" where
  "hit_collection_add_hit MAX_NUMBER_HITS c hit =
     (if 0 \<le> hit_total c \<and> hit_total c < int MAX_NUMBER_HITS then
        Inr (c\<lparr>hits := (hits c)[nat (hit_total c) := hit], hit_total := hit_total c + 1\<rparr>, True)
      else Inl (WriteOutsideHits (hit_total c)))"

section \<open>Comparing matches (src/c/match.h)\<close>

text \<open>
  Modelled from the spec: the bodies of the comparators \<open>compare_match_xcorr\<close> and
  \<open>compare_match_spectrum_xcorr\<close> (and of the other \<open>compare_match_...\<close> functions) are
  not among the sources; \<open>match.h\<close> only declares them. The specification asks of
  every sort comparator that its primary key be the score, descending where a larger
  score is better and ascending otherwise, and its secondary key the peptide sequence
  in lexical order. As for \<open>qsort\<close>, the result is negative, zero or positive. A match
  is reduced to the two attributes the comparators look at; a score is an exact real
  number.
\<close>

record match =
  peptide_sequence :: string
  xcorr :: real

text \<open>
  Modelled from the spec: the lexical order of two peptide sequences, which \<open>match.h\<close>
  does not define: character by character, a proper prefix first.
\<close>

fun compare_sequence :: "string \<Rightarrow> string \<Rightarrow> int" where
  "compare_sequence [] [] = 0"
| "compare_sequence [] (y # ys) = - 1"
| "compare_sequence (x # xs) [] = 1"
| "compare_sequence (x # xs) (y # ys) =
     (if (of_char x :: nat) < of_char y then - 1
      else if (of_char y :: nat) < of_char x then 1
      else compare_sequence xs ys)"

text \<open>
  Modelled from the spec: the comparator on the pair of keys (score, sequence), which
  \<open>match.h\<close> does not define. The score decides when the scores differ,
  \<open>larger_is_better\<close> choosing the direction; the sequence decides when they are equal.
\<close>

definition compare_keys :: "bool \<Rightarrow> real \<times> string \<Rightarrow> real \<times> string \<Rightarrow> int" where
  "compare_keys larger_is_better a b =
     (if fst a = fst b then compare_sequence (snd a) (snd b)
      else if (fst b < fst a) = larger_is_better then - 1 else 1)"

text \<open>
  Modelled from the spec: the two keys of a match for a given score, which \<open>match.h\<close>
  does not define: the score first, the peptide sequence second.
\<close>

definition sort_keys :: "(match \<Rightarrow> real) \<Rightarrow> match \<Rightarrow> real \<times> string" where
  "sort_keys score m = (score m, peptide_sequence m)"

text \<open>
  Modelled from the spec: the comparator on matches for a given score and direction,
  whose body is not among the sources.
\<close>

definition compare_match :: "bool \<Rightarrow> (match \<Rightarrow> real) \<Rightarrow> match \<Rightarrow> match \<Rightarrow> int" where
  "compare_match larger_is_better score a b =
     compare_keys larger_is_better (sort_keys score a) (sort_keys score b)"

text \<open>
  Modelled from the spec: \<open>compare_match_xcorr\<close>, declared in \<open>match.h\<close> without a
  body: the comparator for XCorr, where larger is better.
\<close>

definition compare_match_xcorr :: "match \<Rightarrow> match \<Rightarrow> int" where
  "compare_match_xcorr a b = compare_match True xcorr a b"

text \<open>Values for the concrete cases below: two matches with the same score.\<close>

definition match_AAK :: match where
  "match_AAK = \<lparr> peptide_sequence = ''AAK'', xcorr = 5 / 2 \<rparr>"

definition match_AAR :: match where
  "match_AAR = \<lparr> peptide_sequence = ''AAR'', xcorr = 5 / 2 \<rparr>"

chapter \<open>The properties\<close>

section \<open>Properties of the cross-correlation transform\<close>

subsection \<open>What the loops compute\<close>

lemma sub_idx_loop_foldl:
  "hi < INT_MAX \<Longrightarrow>
   sub_idx_loop f inp n hi s acc =
     Some (foldl (\<lambda>a j. f a (inp ! nat j) (MAX_XCORR_OFFSET * 2)) acc
             (filter (\<lambda>j. 0 < j \<and> j < n) [s..hi]))"
proof (induction f inp n hi s acc rule: sub_idx_loop.induct)
  case (1 f inp n hi s acc)
  show ?case
  proof (cases "s \<le> hi")
    case False
    then show ?thesis by (simp add: sub_idx_loop.simps[of f inp n hi s acc])
  next
    case True
    with 1(3) have ne: "s \<noteq> INT_MAX" by simp
    from True have up: "[s..hi] = s # [s + 1..hi]" by (simp add: upto_rec1)
    show ?thesis
    proof (cases "s \<le> 0 \<or> s \<ge> n")
      case skip: True
      with 1(1)[OF True ne skip 1(3)] True ne show ?thesis
        by (auto simp: sub_idx_loop.simps[of f inp n hi s acc] up)
    next
      case take: False
      with 1(2)[OF True ne take 1(3)] True ne show ?thesis
        by (auto simp: sub_idx_loop.simps[of f inp n hi s acc] up)
    qed
  qed
qed

lemma sub_idx_loop_overflow:
  "s \<le> hi \<Longrightarrow> hi = INT_MAX \<Longrightarrow> sub_idx_loop f inp n hi s acc = None"
proof (induction f inp n hi s acc rule: sub_idx_loop.induct)
  case (1 f inp n hi s acc)
  show ?case
  proof (cases "s = INT_MAX")
    case True
    with 1(3) show ?thesis by (subst sub_idx_loop.simps) simp
  next
    case False
    with 1(3,4) have next_le: "s + 1 \<le> hi" by simp
    show ?thesis
    proof (cases "s \<le> 0 \<or> s \<ge> n")
      case skip: True
      with 1(1)[OF 1(3) False skip next_le 1(4)] 1(3) False show ?thesis
        by (auto simp: sub_idx_loop.simps[of f inp n hi s acc])
    next
      case take: False
      with 1(2)[OF 1(3) False take next_le 1(4)] 1(3) False show ?thesis
        by (auto simp: sub_idx_loop.simps[of f inp n hi s acc])
    qed
  qed
qed

lemma idx_loop_Some:
  assumes "0 \<le> idx" "n + \<bar>w\<bar> \<le> INT_MAX" "n \<le> int (length ans)"
  shows "\<exists>out. idx_loop f inp n w idx ans = Some out \<and> length out = length ans \<and>
           (\<forall>i. 0 \<le> i \<longrightarrow>
              out ! nat i =
                (if idx \<le> i \<and> i < n
                 then foldl (\<lambda>a j. f a (inp ! nat j) (MAX_XCORR_OFFSET * 2)) (inp ! nat i)
                        (filter (\<lambda>j. 0 < j \<and> j < n) [i - w..i + w])
                 else ans ! nat i))"
  using assms
proof (induction f inp n w idx ans rule: idx_loop.induct)
  case (1 f inp n w idx ans)
  show ?case
  proof (cases "idx < n")
    case False
    show ?thesis
    proof (intro exI[of _ ans] conjI allI impI)
      show "idx_loop f inp n w idx ans = Some ans"
        using False by (simp add: idx_loop.simps[of f inp n w idx ans])
      show "length ans = length ans" by (rule refl)
      fix i :: int
      from False have "\<not> (idx \<le> i \<and> i < n)" by auto
      then show "ans ! nat i =
          (if idx \<le> i \<and> i < n
           then foldl (\<lambda>a j. f a (inp ! nat j) (MAX_XCORR_OFFSET * 2)) (inp ! nat i)
                  (filter (\<lambda>j. 0 < j \<and> j < n) [i - w..i + w])
           else ans ! nat i)"
        by (simp only: if_False)
    qed
  next
    case True
    let ?v = "foldl (\<lambda>a j. f a (inp ! nat j) (MAX_XCORR_OFFSET * 2)) (inp ! nat idx)
                (filter (\<lambda>j. 0 < j \<and> j < n) [idx - w..idx + w])"
    from True 1(2,3) have range: "is_int (idx - w)" "is_int (idx + w)" "idx + w < INT_MAX"
      by (auto simp: is_int_def INT_MAX_def INT_MIN_def)
    have inner: "sub_idx_loop f inp n (idx + w) (idx - w) (inp ! nat idx) = Some ?v"
      by (rule sub_idx_loop_foldl[OF range(3)])
    have step: "idx_loop f inp n w idx ans = idx_loop f inp n w (idx + 1) (ans[nat idx := ?v])"
      using True range inner by (simp add: idx_loop.simps[of f inp n w idx ans])
    from range(1,2) have ok: "\<not> (\<not> is_int (idx - w) \<or> \<not> is_int (idx + w))" by simp
    from 1(1)[OF True ok inner] 1(2-4)
    obtain out where out: "idx_loop f inp n w (idx + 1) (ans[nat idx := ?v]) = Some out"
      "length out = length (ans[nat idx := ?v])"
      "\<forall>i. 0 \<le> i \<longrightarrow>
          out ! nat i =
            (if idx + 1 \<le> i \<and> i < n
             then foldl (\<lambda>a j. f a (inp ! nat j) (MAX_XCORR_OFFSET * 2)) (inp ! nat i)
                    (filter (\<lambda>j. 0 < j \<and> j < n) [i - w..i + w])
             else ans[nat idx := ?v] ! nat i)"
      by auto
    have upd: "ans[nat idx := ?v] ! nat i = (if i = idx then ?v else ans ! nat i)"
      if "0 \<le> i" for i
      using that 1(2,4) True by (auto simp: nth_list_update)
    show ?thesis
    proof (intro exI[of _ out] conjI allI impI)
      show "idx_loop f inp n w idx ans = Some out" using step out(1) by simp
      show "length out = length ans" using out(2) by simp
      fix i :: int
      assume i: "0 \<le> i"
      from out(3) i upd[OF i] True
      show "out ! nat i =
          (if idx \<le> i \<and> i < n
           then foldl (\<lambda>a j. f a (inp ! nat j) (MAX_XCORR_OFFSET * 2)) (inp ! nat i)
                  (filter (\<lambda>j. 0 < j \<and> j < n) [i - w..i + w])
           else ans ! nat i)"
        by (cases "i = idx") auto
    qed
  qed
qed

lemma foldl_exact_minus_quotient:
  "foldl (\<lambda>a j. exact_minus_quotient a (g j) d) acc js =
     acc - sum_list (map g js) / real_of_int d"
  by (induction js arbitrary: acc)
     (simp_all add: exact_minus_quotient_def add_divide_distrib)

lemma sum_list_window:
  "sum_list (map g (filter P [s..hi])) = sum g {j \<in> {s..hi}. P j}"
proof -
  have "distinct (filter P [s..hi])" by simp
  then have "sum_list (map g (filter P [s..hi])) = sum g (set (filter P [s..hi]))"
    by (rule sum_list_distinct_conv_sum_set)
  also have "set (filter P [s..hi]) = {j \<in> {s..hi}. P j}" by auto
  finally show ?thesis .
qed

lemma do_cross_correlation_obs_fold:
  assumes "0 \<le> i" "i < n" "n + \<bar>w\<bar> \<le> INT_MAX"
    "n \<le> int (length inp)" "n \<le> int (length ans)"
  shows "\<exists>out. do_cross_correlation_obs f inp ans n w = Some out \<and>
           length out = length ans \<and>
           out ! nat i =
             foldl (\<lambda>a j. f a (inp ! nat j) (MAX_XCORR_OFFSET * 2)) (inp ! nat i)
               (filter (\<lambda>j. 0 < j \<and> j < n) [i - w..i + w])"
proof -
  from assms(1-3) have ints: "is_int n" "is_int w" "\<not> n \<le> 0"
    by (auto simp: is_int_def INT_MAX_def INT_MIN_def)
  from idx_loop_Some[of 0 n w ans f inp] assms
  obtain out where out: "idx_loop f inp n w 0 ans = Some out" "length out = length ans"
    "\<forall>i. 0 \<le> i \<longrightarrow>
        out ! nat i =
          (if 0 \<le> i \<and> i < n
           then foldl (\<lambda>a j. f a (inp ! nat j) (MAX_XCORR_OFFSET * 2)) (inp ! nat i)
                  (filter (\<lambda>j. 0 < j \<and> j < n) [i - w..i + w])
           else ans ! nat i)"
    by auto
  from out(3) assms(1,2) have "out ! nat i =
      foldl (\<lambda>a j. f a (inp ! nat j) (MAX_XCORR_OFFSET * 2)) (inp ! nat i)
        (filter (\<lambda>j. 0 < j \<and> j < n) [i - w..i + w])"
    by simp
  with out(1,2) ints assms(4,5) show ?thesis
    by (simp add: do_cross_correlation_obs_def)
qed

lemma do_cross_correlation_obs_exact:
  assumes "0 \<le> i" "i < n" "n + \<bar>w\<bar> \<le> INT_MAX"
    "n \<le> int (length xs)" "n \<le> int (length ys)"
  shows "\<exists>out. do_cross_correlation_obs exact_minus_quotient xs ys n w = Some out \<and>
           length out = length ys \<and>
           out ! nat i =
             xs ! nat i -
               (\<Sum>j \<in> {j \<in> {i - w..i + w}. 0 < j \<and> j < n}. xs ! nat j) /
                 (real_of_int MAX_XCORR_OFFSET * 2)"
  using do_cross_correlation_obs_fold[OF assms, of exact_minus_quotient]
  by (simp add: foldl_exact_minus_quotient sum_list_window)

text \<open>
  Without the bound the call need not return: with \<open>max_offset = INT_MAX\<close> the inner
  loop of the first bin runs into the overflow of \<open>sub_idx++\<close>.
\<close>

lemma do_cross_correlation_obs_overflow:
  "do_cross_correlation_obs f [a, b] [c, d] 2 INT_MAX = None"
proof -
  have r: "is_int (- INT_MAX)" "is_int INT_MAX" "is_int 2" "(0::int) < 2"
    by (simp_all add: is_int_def INT_MAX_def INT_MIN_def)
  have inner: "sub_idx_loop f [a, b] 2 INT_MAX (- INT_MAX) a = None"
    by (rule sub_idx_loop_overflow) (simp_all add: INT_MAX_def)
  have "idx_loop f [a, b] 2 INT_MAX 0 [c, d] = None"
    by (subst idx_loop.simps) (simp add: r inner)
  then show ?thesis
    by (simp add: do_cross_correlation_obs_def r)
qed

lemma three_peaks_window:
  "{j::int. 8 \<le> j \<and> j \<le> 12 \<and> 0 < j \<and> j < 100} = {8, 9, 10, 11, 12}"
  by auto

lemma three_peaks_nth:
  "three_peaks ! 8 = 0" "three_peaks ! 9 = 0" "three_peaks ! 10 = 100"
  "three_peaks ! 11 = 0" "three_peaks ! 12 = 0" "length three_peaks = 100"
  by (simp_all add: three_peaks_def)

lemma three_peaks_at_10:
  "\<exists>out. do_cross_correlation_obs exact_minus_quotient three_peaks (replicate 100 0) 100 2 =
           Some out \<and> out ! 10 = 298 / 3"
  using do_cross_correlation_obs_exact[of 10 100 2 three_peaks "replicate 100 0"]
  by (auto simp: three_peaks_nth three_peaks_window MAX_XCORR_OFFSET_def INT_MAX_def)

lemma spec_window:
  "{j::int. 8 \<le> j \<and> j \<le> 12 \<and> j \<noteq> 10 \<and> 0 < j \<and> j < 100} = {8, 9, 11, 12}"
  by auto

lemma spec_cross_correlation_three_peaks: "spec_cross_correlation three_peaks 100 2 10 = 100"
  by (simp add: spec_cross_correlation_def spec_window three_peaks_nth)

subsection \<open>C1: the value of the transform at a bin\<close>

text \<open>
  C1, as the code has it. Let \<open>0 \<le> i < n\<close> and \<open>n + |max_offset| \<le> INT_MAX\<close>, so that
  no \<open>int\<close> computation of the loops overflows, and let the buffers have at least \<open>n\<close>
  entries. Then the call returns, and its output at \<open>i\<close> is the input at \<open>i\<close> to which
  the step \<open>ans[i] -= in[j] / (2 * MAX_XCORR_OFFSET)\<close> has been applied for each \<open>j\<close> of
  the window \<open>[i - max_offset, i + max_offset]\<close> with \<open>0 < j < n\<close>, in increasing order;
  this holds for the machine's arithmetic whatever it rounds to. In exact arithmetic,
  which is an idealisation of \<open>float\<close>, the output is therefore the input at \<open>i\<close> minus
  the sum of the inputs over that window divided by the constant 150. The window is
  not punctured: for \<open>0 < i\<close> and \<open>0 \<le> max_offset\<close> the bin \<open>i\<close> itself is one of the
  summands. The divisor depends neither on \<open>max_offset\<close> nor on how many indices were
  skipped.
\<close>

theorem do_cross_correlation_obs_window_sum:
  fixes minus_quotient :: "'f \<Rightarrow> 'f \<Rightarrow> int \<Rightarrow> 'f" and inp ans :: "'f list"
    and xs ys :: "real list"
  assumes "0 \<le> i" "i < n" "n + \<bar>max_offset\<bar> \<le> INT_MAX"
  shows "(n \<le> int (length inp) \<and> n \<le> int (length ans) \<longrightarrow>
            (\<exists>out. do_cross_correlation_obs minus_quotient inp ans n max_offset = Some out \<and>
               length out = length ans \<and>
               out ! nat i =
                 foldl (\<lambda>a j. minus_quotient a (inp ! nat j) (MAX_XCORR_OFFSET * 2))
                   (inp ! nat i)
                   (filter (\<lambda>j. 0 < j \<and> j < n) [i - max_offset..i + max_offset]))) \<and>
         (n \<le> int (length xs) \<and> n \<le> int (length ys) \<longrightarrow>
            (\<exists>out. do_cross_correlation_obs exact_minus_quotient xs ys n max_offset = Some out \<and>
               length out = length ys \<and>
               out ! nat i =
                 xs ! nat i -
                   (\<Sum>j \<in> {j \<in> {i - max_offset..i + max_offset}. 0 < j \<and> j < n}. xs ! nat j) /
                     (real_of_int MAX_XCORR_OFFSET * 2))) \<and>
         (0 < i \<and> 0 \<le> max_offset \<longrightarrow>
            i \<in> {j \<in> {i - max_offset..i + max_offset}. 0 < j \<and> j < n})"
proof (intro conjI impI)
  assume "n \<le> int (length inp) \<and> n \<le> int (length ans)"
  then show "\<exists>out. do_cross_correlation_obs minus_quotient inp ans n max_offset = Some out \<and>
      length out = length ans \<and>
      out ! nat i =
        foldl (\<lambda>a j. minus_quotient a (inp ! nat j) (MAX_XCORR_OFFSET * 2)) (inp ! nat i)
          (filter (\<lambda>j. 0 < j \<and> j < n) [i - max_offset..i + max_offset])"
    using do_cross_correlation_obs_fold[OF assms, of inp ans minus_quotient] by simp
next
  assume "n \<le> int (length xs) \<and> n \<le> int (length ys)"
  then show "\<exists>out. do_cross_correlation_obs exact_minus_quotient xs ys n max_offset = Some out \<and>
      length out = length ys \<and>
      out ! nat i =
        xs ! nat i -
          (\<Sum>j \<in> {j \<in> {i - max_offset..i + max_offset}. 0 < j \<and> j < n}. xs ! nat j) /
            (real_of_int MAX_XCORR_OFFSET * 2)"
    using do_cross_correlation_obs_exact[OF assms, of xs ys] by simp
next
  assume "0 < i \<and> 0 \<le> max_offset"
  with assms(2) show "i \<in> {j \<in> {i - max_offset..i + max_offset}. 0 < j \<and> j < n}" by simp
qed

text \<open>
  The scenario of the specification (peaks of 100 at bins 10, 50 and 90 of a 100-bin
  array, \<open>max_offset = 2\<close>), in exact arithmetic: the code's value at bin 10 is
  \<open>100 - 100/150 = 298/3\<close>.
\<close>

theorem do_cross_correlation_obs_window_sum_witness:
  "(0::int) \<le> 10 \<and> (10::int) < 100 \<and> 100 + \<bar>2\<bar> \<le> INT_MAX \<and>
   (\<exists>out. do_cross_correlation_obs exact_minus_quotient three_peaks (replicate 100 0) 100 2 =
           Some out \<and>
         length out = 100 \<and> out ! 10 = 298 / 3)"
proof -
  have b: "(0::int) \<le> 10" "(10::int) < 100" "100 + \<bar>2\<bar> \<le> INT_MAX"
    by (simp_all add: INT_MAX_def)
  from do_cross_correlation_obs_window_sum[OF b,
      where xs = three_peaks and ys = "replicate 100 0" and inp = three_peaks
        and ans = "replicate 100 0" and minus_quotient = exact_minus_quotient]
  show ?thesis using b
    by (simp add: three_peaks_nth three_peaks_window MAX_XCORR_OFFSET_def)
qed

text \<open>
  C1 as the specification states it fails on its own scenario: the specification's
  formula gives 100 at bin 10, the code gives \<open>298/3\<close> (in exact arithmetic), because
  bin 10 itself is inside the window the code sums over.
\<close>

theorem do_cross_correlation_obs_not_neighbour_average:
  "do_cross_correlation_obs exact_minus_quotient three_peaks (replicate 100 0) 100 2 \<noteq> None \<and>
   the (do_cross_correlation_obs exact_minus_quotient three_peaks (replicate 100 0) 100 2) ! 10 =
     298 / 3 \<and>
   spec_cross_correlation three_peaks 100 2 10 = 100 \<and>
   the (do_cross_correlation_obs exact_minus_quotient three_peaks (replicate 100 0) 100 2) ! 10 \<noteq>
     spec_cross_correlation three_peaks 100 2 10"
  using three_peaks_at_10 spec_cross_correlation_three_peaks by auto

section \<open>Properties of the output files\<close>

subsection \<open>Helper facts about the output files\<close>

lemma length_footers_loop: "length (footers_loop nfiles file_idx files) = length files"
proof (induction nfiles file_idx files rule: footers_loop.induct)
  case (1 nfiles file_idx files)
  show ?case
  proof (cases "file_idx < nfiles")
    case True
    with 1[OF True] show ?thesis by (simp add: footers_loop.simps[of nfiles file_idx files])
  next
    case False
    then show ?thesis by (simp add: footers_loop.simps[of nfiles file_idx files])
  qed
qed

lemma footers_loop_nth:
  "0 \<le> file_idx \<Longrightarrow> nfiles \<le> int (length files) \<Longrightarrow> k < length files \<Longrightarrow>
   footers_loop nfiles file_idx files ! k =
     (if file_idx \<le> int k \<and> int k < nfiles then files ! k @ [XmlFooter] else files ! k)"
proof (induction nfiles file_idx files rule: footers_loop.induct)
  case (1 nfiles file_idx files)
  show ?case
  proof (cases "file_idx < nfiles")
    case False
    then show ?thesis by (simp add: footers_loop.simps[of nfiles file_idx files])
  next
    case True
    let ?files = "files[nat file_idx := files ! nat file_idx @ [XmlFooter]]"
    have step: "footers_loop nfiles file_idx files = footers_loop nfiles (file_idx + 1) ?files"
      using True by (simp add: footers_loop.simps[of nfiles file_idx files])
    have ih: "footers_loop nfiles (file_idx + 1) ?files ! k =
        (if file_idx + 1 \<le> int k \<and> int k < nfiles then ?files ! k @ [XmlFooter] else ?files ! k)"
      using 1(1)[OF True] 1(2-4) by simp
    have upd: "?files ! k = (if int k = file_idx then files ! k @ [XmlFooter] else files ! k)"
      using 1(2-4) by (auto simp: nth_list_update)
    show ?thesis
      unfolding step ih upd using True by auto
  qed
qed

lemma footers_loop_all:
  assumes "int (length files) = nfiles"
  shows "footers_loop nfiles 0 files = map (\<lambda>f. f @ [XmlFooter]) files"
proof (rule nth_equalityI)
  show "length (footers_loop nfiles 0 files) = length (map (\<lambda>f. f @ [XmlFooter]) files)"
    by (simp add: length_footers_loop)
next
  fix k
  assume "k < length (footers_loop nfiles 0 files)"
  then have k: "k < length files" by (simp add: length_footers_loop)
  with assms show "footers_loop nfiles 0 files ! k = map (\<lambda>f. f @ [XmlFooter]) files ! k"
    by (simp add: footers_loop_nth)
qed

lemma writeFooters_once:
  assumes "xml_file_array ofs = Some files" "int (length files) = num_files ofs"
  shows "writeFooters ofs = ofs\<lparr>xml_file_array := Some (map (\<lambda>f. f @ [XmlFooter]) files)\<rparr>"
  using assms by (simp add: writeFooters_def footers_loop_all)

lemma OutputFiles_new_search:
  "OutputFiles_new two_decoy_parameters SEARCH_COMMAND =
     Some \<lparr> matches_per_spec = 5, command = SEARCH_COMMAND, num_files = 3,
            target_decoy_list = [''target'', ''decoy-1'', ''decoy-2''],
            delim_file_array = Some [[], [], []],
            xml_file_array = Some [[], [], []],
            sqt_file_array = None,
            feature_file = None \<rparr>"
  by code_simp

lemma OutputFiles_new_percolator:
  "OutputFiles_new two_decoy_parameters PERCOLATOR_COMMAND =
     Some \<lparr> matches_per_spec = 5, command = PERCOLATOR_COMMAND, num_files = 1,
            target_decoy_list = [''target''],
            delim_file_array = Some [[]],
            xml_file_array = Some [[]],
            sqt_file_array = None,
            feature_file = None \<rparr>"
  by code_simp

lemma OutputFiles_new_num_files:
  assumes "OutputFiles_new p program_name = Some ofs"
  shows "num_files ofs =
           (if program_name = SEARCH_COMMAND \<or> program_name = SEQUEST_COMMAND
            then num_decoy_files p + 1 else 1)"
  using assms by (auto simp: OutputFiles_new_def Let_def split: option.splits if_splits)

lemma OutputFiles_new_xml_length:
  assumes "OutputFiles_new p program_name = Some ofs" "xml_file_array ofs = Some files"
  shows "int (length files) = num_files ofs"
  using assms
  by (auto simp: OutputFiles_new_def Let_def createFiles_def makeTargetDecoyList_def
        split: option.splits if_splits)

lemma num_files_writeFooters: "num_files (writeFooters ofs) = num_files ofs"
  by (simp add: writeFooters_def split: option.splits)

lemma num_files_writeMatches:
  assumes "writeMatches ofs index target decoys rank_type spectrum = Inr (ofs', index')"
  shows "num_files ofs' = num_files ofs"
  using assms
  by (auto simp: writeMatches_def printMatchesXml_def printMatchesSqt_def printMatchesTab_def
        Let_def split: if_splits option.splits)

lemma writeMatches_Inr_iff:
  "(\<exists>ofs' index'. writeMatches ofs index (Some target) decoys rank_type spectrum =
        Inr (ofs', index'))
     \<longleftrightarrow> int (length decoys) = num_files ofs - 1"
  by (cases "printMatchesXml
               (printMatchesSqt (printMatchesTab ofs (Some target) decoys rank_type spectrum)
                  (Some target) decoys spectrum)
               index (Some target) decoys spectrum rank_type")
     (simp add: writeMatches_def)

subsection \<open>C2: the decoy-count check of writeMatches\<close>

text \<open>
  C2, as the code has it. \<open>writeMatches\<close> with a target collection (not \<open>NULL\<close>)
  returns exactly when the number of decoy collections is \<open>num_files_ - 1\<close>, and is
  fatal otherwise. The constructor sets \<open>num_files_\<close> to \<open>num_decoy_files + 1\<close> for the
  search and sequest commands only; for every other command it is 1, so that the
  expected number of decoy collections is 0 whatever \<open>num-decoy-files\<close> says. \<open>ofs\<close>
  is the object in any later state: no operation changes \<open>num_files_\<close>
  (\<open>num_files_writeFooters\<close>, \<open>num_files_writeMatches\<close>).
\<close>

theorem writeMatches_decoy_count:
  assumes "OutputFiles_new p program_name = Some ofs0" "num_files ofs = num_files ofs0"
  shows "((\<exists>ofs' index'. writeMatches ofs index (Some target) decoys rank_type spectrum =
             Inr (ofs', index'))
          \<longleftrightarrow> int (length decoys) =
                (if program_name = SEARCH_COMMAND \<or> program_name = SEQUEST_COMMAND
                 then num_decoy_files p else 0)) \<and>
         (int (length decoys) \<noteq>
                (if program_name = SEARCH_COMMAND \<or> program_name = SEQUEST_COMMAND
                 then num_decoy_files p else 0)
          \<longrightarrow> writeMatches ofs index (Some target) decoys rank_type spectrum =
                Inl (WrongDecoyCount (int (length decoys))
                       (if program_name = SEARCH_COMMAND \<or> program_name = SEQUEST_COMMAND
                        then num_decoy_files p else 0)))"
proof -
  have n: "num_files ofs - 1 =
      (if program_name = SEARCH_COMMAND \<or> program_name = SEQUEST_COMMAND
       then num_decoy_files p else 0)"
    using OutputFiles_new_num_files[OF assms(1)] assms(2) by simp
  show ?thesis
    unfolding writeMatches_Inr_iff n[symmetric] by (simp add: writeMatches_def)
qed

text \<open>
  The case of the specification: a search with \<open>num-decoy-files = 2\<close> that is given one
  decoy collection fails with the fatal message.
\<close>

theorem writeMatches_decoy_count_witness:
  "\<exists>ofs. OutputFiles_new two_decoy_parameters SEARCH_COMMAND = Some ofs \<and>
         writeMatches ofs 1 (Some 7) [Some 8] 0 (Some 9) = Inl (WrongDecoyCount 1 2) \<and>
         (\<exists>ofs' index'. writeMatches ofs 1 (Some 7) [Some 8, Some 10] 0 (Some 9) =
            Inr (ofs', index'))"
proof -
  have n: "num_decoy_files two_decoy_parameters = 2"
    by (simp add: two_decoy_parameters_def)
  from writeMatches_decoy_count[OF OutputFiles_new_search refl, of 1 7 "[Some 8]" 0 "Some 9"]
    writeMatches_decoy_count[OF OutputFiles_new_search refl,
      of 1 7 "[Some 8, Some 10]" 0 "Some 9"]
  show ?thesis
    by (simp add: OutputFiles_new_search n)
qed

text \<open>
  C2 as the specification states it fails for a command other than search and
  sequest: with \<open>num-decoy-files = 2\<close>, percolator's \<open>writeMatches\<close> returns when it is
  given no decoy collection, and is fatal when it is given two.
\<close>

theorem writeMatches_percolator_ignores_num_decoy_files:
  "num_decoy_files two_decoy_parameters = 2 \<and>
   OutputFiles_new two_decoy_parameters PERCOLATOR_COMMAND \<noteq> None \<and>
   \<not> isl (writeMatches (the (OutputFiles_new two_decoy_parameters PERCOLATOR_COMMAND))
            1 (Some 7) [] 0 (Some 9)) \<and>
   writeMatches (the (OutputFiles_new two_decoy_parameters PERCOLATOR_COMMAND))
     1 (Some 7) [Some 8, Some 10] 0 (Some 9) = Inl (WrongDecoyCount 2 0)"
proof -
  have n: "num_decoy_files two_decoy_parameters = 2"
    by (simp add: two_decoy_parameters_def)
  show ?thesis
    by (simp add: OutputFiles_new_percolator writeMatches_def n)
qed

subsection \<open>C3: writeFooters is not idempotent\<close>

text \<open>
  C3, as the code has it. \<open>writeFooters\<close> keeps no record of having run: every call
  appends one footer to each of the \<open>num_files_\<close> XML files, whatever they hold, so
  \<open>n\<close> calls append \<open>n\<close> footers. A footer is written once per channel only when
  the caller calls \<open>writeFooters\<close> once. Without XML files the call changes nothing.
  (The constructor makes the XML array \<open>num_files_\<close> long: \<open>OutputFiles_new_xml_length\<close>.)
\<close>

theorem writeFooters_repeated:
  "(xml_file_array ofs = Some files \<and> int (length files) = num_files ofs \<longrightarrow>
      (writeFooters ^^ n) ofs =
        ofs\<lparr>xml_file_array := Some (map (\<lambda>f. f @ replicate n XmlFooter) files)\<rparr>) \<and>
   (xml_file_array ofs = None \<longrightarrow> (writeFooters ^^ n) ofs = ofs)"
proof (intro conjI impI)
  assume a: "xml_file_array ofs = Some files \<and> int (length files) = num_files ofs"
  show "(writeFooters ^^ n) ofs =
      ofs\<lparr>xml_file_array := Some (map (\<lambda>f. f @ replicate n XmlFooter) files)\<rparr>"
  proof (induction n)
    case 0
    from a show ?case by simp
  next
    case (Suc n)
    let ?files = "map (\<lambda>f. f @ replicate n XmlFooter) files"
    let ?ofs = "ofs\<lparr>xml_file_array := Some ?files\<rparr>"
    have "xml_file_array ?ofs = Some ?files" "int (length ?files) = num_files ?ofs"
      using a by simp_all
    from writeFooters_once[OF this]
    have "writeFooters ?ofs =
        ofs\<lparr>xml_file_array := Some (map (\<lambda>f. f @ replicate (Suc n) XmlFooter) files)\<rparr>"
      by (simp add: replicate_append_same)
    with Suc show ?case by simp
  qed
next
  assume "xml_file_array ofs = None"
  then show "(writeFooters ^^ n) ofs = ofs"
    by (induction n) (simp_all add: writeFooters_def)
qed

text \<open>
  A search with two decoy files: after two calls each of the three XML files ends with
  two footers, although no match was ever written.
\<close>

theorem writeFooters_repeated_witness:
  "\<exists>ofs. OutputFiles_new two_decoy_parameters SEARCH_COMMAND = Some ofs \<and>
         xml_file_array (writeFooters (writeFooters ofs)) =
           Some [[XmlFooter, XmlFooter], [XmlFooter, XmlFooter], [XmlFooter, XmlFooter]]"
  using writeFooters_repeated[of
      "the (OutputFiles_new two_decoy_parameters SEARCH_COMMAND)" "[[], [], []]" 2]
  by (simp add: OutputFiles_new_search numeral_2_eq_2)

text \<open>
  C3 as the specification states it fails: the second call is not a no-op, it writes
  a second footer.
\<close>

theorem writeFooters_twice_duplicates_footer:
  "OutputFiles_new two_decoy_parameters SEARCH_COMMAND \<noteq> None \<and>
   xml_file_array (writeFooters (the (OutputFiles_new two_decoy_parameters SEARCH_COMMAND))) =
     Some [[XmlFooter], [XmlFooter], [XmlFooter]] \<and>
   xml_file_array
     (writeFooters (writeFooters (the (OutputFiles_new two_decoy_parameters SEARCH_COMMAND)))) =
     Some [[XmlFooter, XmlFooter], [XmlFooter, XmlFooter], [XmlFooter, XmlFooter]] \<and>
   writeFooters (writeFooters (the (OutputFiles_new two_decoy_parameters SEARCH_COMMAND))) \<noteq>
     writeFooters (the (OutputFiles_new two_decoy_parameters SEARCH_COMMAND))"
proof -
  let ?ofs = "the (OutputFiles_new two_decoy_parameters SEARCH_COMMAND)"
  have 1: "xml_file_array (writeFooters ?ofs) = Some [[XmlFooter], [XmlFooter], [XmlFooter]]"
    using writeFooters_once[of ?ofs "[[], [], []]"] by (simp add: OutputFiles_new_search)
  have 2: "xml_file_array (writeFooters (writeFooters ?ofs)) =
      Some [[XmlFooter, XmlFooter], [XmlFooter, XmlFooter], [XmlFooter, XmlFooter]]"
    using writeFooters_once[of ?ofs "[[], [], []]"]
      writeFooters_once[of "writeFooters ?ofs" "[[XmlFooter], [XmlFooter], [XmlFooter]]"]
    by (simp add: OutputFiles_new_search)
  have 3: "writeFooters (writeFooters ?ofs) \<noteq> writeFooters ?ofs"
    using 1 2 by auto
  show ?thesis using 1 2 3 by (simp add: OutputFiles_new_search)
qed

subsection \<open>Helper facts about the labels\<close>

lemma zero_nine: "(of_char CHR ''0'' :: nat) = 48" "(of_char CHR ''9'' :: nat) = 57"
  by simp_all

lemma digits_value_snoc:
  "digits_value (ds @ [c]) = 10 * digits_value ds + (of_char c - of_char CHR ''0'')"
  by (simp add: digits_value_def)

lemma decimal_nonempty: "decimal n \<noteq> []"
  by (subst decimal.simps) simp

lemma length_decimal_small: "n < 10 \<Longrightarrow> decimal n = [char_of (48 + n)]"
  by (subst decimal.simps) simp

lemma hd_decimal: "1 \<le> n \<Longrightarrow> hd (decimal n) \<noteq> CHR ''0''"
proof (induction n rule: decimal.induct)
  case (1 n)
  show ?case
  proof (cases "n < 10")
    case True
    have ne: "(of_char (char_of (48 + n) :: char) :: nat) \<noteq> of_char CHR ''0''"
      using True 1(2) by simp
    have "char_of (48 + n) \<noteq> CHR ''0''"
    proof
      assume "char_of (48 + n) = CHR ''0''"
      then have "(of_char (char_of (48 + n) :: char) :: nat) = of_char CHR ''0''"
        by (rule arg_cong)
      with ne show False by contradiction
    qed
    with True show ?thesis by (simp add: length_decimal_small)
  next
    case False
    then have "1 \<le> n div 10" by simp
    from 1(1)[OF False this] False show ?thesis
      by (subst decimal.simps) (simp add: decimal_nonempty)
  qed
qed

lemma decimal_is_decimal: "is_decimal_of (decimal n) n"
proof (induction n rule: decimal.induct)
  case (1 n)
  show ?case
  proof (cases "n < 10")
    case True
    then show ?thesis
      by (simp add: length_decimal_small is_decimal_of_def digits_value_def)
  next
    case False
    let ?c = "char_of (48 + n mod 10) :: char"
    have eq: "decimal n = decimal (n div 10) @ [?c]"
      using False by (subst decimal.simps) simp
    have c: "(of_char ?c :: nat) = 48 + n mod 10"
      by simp
    from False have pos: "1 \<le> n div 10" by simp
    from 1[OF False] have ih: "is_decimal_of (decimal (n div 10)) (n div 10)" .
    have "hd (decimal n) \<noteq> CHR ''0''"
      using hd_decimal[of n] False by simp
    moreover have "digits_value (decimal n) = n"
      using ih unfolding eq digits_value_snoc c by (simp add: is_decimal_of_def)
    moreover have "list_all (\<lambda>c. (of_char CHR ''0'' :: nat) \<le> of_char c \<and>
        (of_char c :: nat) \<le> of_char CHR ''9'') (decimal n)"
      using ih unfolding eq by (simp add: is_decimal_of_def c)
    ultimately show ?thesis
      by (simp add: is_decimal_of_def decimal_nonempty)
  qed
qed

lemma makeTargetDecoyList_labels:
  assumes "1 \<le> k"
  shows "\<exists>labels. makeTargetDecoyList (1 + int k) = Some labels \<and>
           length labels = 1 + k \<and>
           labels ! 0 = ''target'' \<and>
           (k = 1 \<longrightarrow> labels = [''target'', ''decoy'']) \<and>
           (2 \<le> k \<longrightarrow>
              labels = ''target'' # map (\<lambda>i. ''decoy-'' @ decimal i) [1..<Suc k] \<and>
              (\<forall>i. 1 \<le> i \<and> i \<le> k \<longrightarrow> labels ! i = ''decoy-'' @ decimal i))"
proof (cases "k = 1")
  case True
  then show ?thesis by (simp add: makeTargetDecoyList_def)
next
  case False
  with assms have k: "2 \<le> k" by simp
  let ?labels = "''target'' # map (\<lambda>i. ''decoy-'' @ decimal i) [1..<Suc k]"
  have nth: "?labels ! i = ''decoy-'' @ decimal i" if "1 \<le> i \<and> i \<le> k" for i
  proof -
    from that obtain j where j: "i = Suc j" by (cases i) auto
    with that have "j < length [1..<Suc k]" by simp
    then have "map (\<lambda>i. ''decoy-'' @ decimal i) [1..<Suc k] ! j = ''decoy-'' @ decimal (1 + j)"
      by (simp del: upt_Suc)
    with j show ?thesis by simp
  qed
  have "nat (1 + int k) = Suc k" by simp
  with k have eq: "makeTargetDecoyList (1 + int k) = Some ?labels"
    by (simp add: makeTargetDecoyList_def del: upt_Suc)
  have len: "length ?labels = 1 + k" by (simp del: upt_Suc)
  have first: "?labels ! 0 = ''target''" by simp
  show ?thesis
  proof (intro exI[of _ ?labels] conjI impI allI)
    show "makeTargetDecoyList (1 + int k) = Some ?labels" by (rule eq)
    show "length ?labels = 1 + k" by (rule len)
    show "?labels ! 0 = ''target''" by (rule first)
    show "?labels = [''target'', ''decoy'']" if "k = 1" using that False by simp
    show "?labels = ?labels" by (rule refl)
    show "?labels ! i = ''decoy-'' @ decimal i" if "1 \<le> i \<and> i \<le> k" for i
      using that by (rule nth)
  qed
qed

lemma OutputFiles_new_labels:
  assumes "OutputFiles_new p program_name = Some ofs"
  shows "makeTargetDecoyList (num_files ofs) = Some (target_decoy_list ofs)"
  using assms by (auto simp: OutputFiles_new_def Let_def split: option.splits if_splits)

lemma labels_of_searches:
  "target_decoy_list (the (OutputFiles_new (decoy_parameters 1) SEARCH_COMMAND)) =
     [''target'', ''decoy'']"
  "target_decoy_list (the (OutputFiles_new (decoy_parameters 3) SEQUEST_COMMAND)) =
     [''target'', ''decoy-1'', ''decoy-2'', ''decoy-3'']"
  "target_decoy_list (the (OutputFiles_new (decoy_parameters 12) SEARCH_COMMAND)) =
     [''target'', ''decoy-1'', ''decoy-2'', ''decoy-3'', ''decoy-4'', ''decoy-5'', ''decoy-6'',
      ''decoy-7'', ''decoy-8'', ''decoy-9'', ''decoy-10'', ''decoy-11'', ''decoy-12'']"
  "OutputFiles_new (decoy_parameters 3) SEQUEST_COMMAND \<noteq> None"
  "OutputFiles_new (decoy_parameters 12) SEARCH_COMMAND \<noteq> None"
  by code_simp+

subsection \<open>C7: the target and decoy labels\<close>

text \<open>
  C7, as the code has it. For the search and sequest commands with
  \<open>num-decoy-files = k \<ge> 1\<close> the constructor leaves \<open>1 + k\<close> labels, the first of them
  \<open>target\<close>; for \<open>k = 1\<close> they are \<open>target, decoy\<close>, and for \<open>k \<ge> 2\<close> the label at
  position \<open>i\<close>, for \<open>1 \<le> i \<le> k\<close>, is \<open>decoy-\<close> followed by the decimal numeral of
  \<open>i\<close>. For every other command the constructor sets \<open>num_files_\<close> to 1 and the
  only label is \<open>target\<close>, whatever \<open>num-decoy-files\<close> is.
\<close>

theorem OutputFiles_new_target_decoy_list:
  assumes "OutputFiles_new p program_name = Some ofs"
  shows "((program_name = SEARCH_COMMAND \<or> program_name = SEQUEST_COMMAND) \<and>
          num_decoy_files p = int k \<and> 1 \<le> k \<longrightarrow>
            length (target_decoy_list ofs) = 1 + k \<and>
            target_decoy_list ofs ! 0 = ''target'' \<and>
            (k = 1 \<longrightarrow> target_decoy_list ofs = [''target'', ''decoy'']) \<and>
            (2 \<le> k \<longrightarrow>
               (\<forall>i. 1 \<le> i \<and> i \<le> k \<longrightarrow>
                  (\<exists>ds. target_decoy_list ofs ! i = ''decoy-'' @ ds \<and> is_decimal_of ds i)))) \<and>
         (program_name \<noteq> SEARCH_COMMAND \<and> program_name \<noteq> SEQUEST_COMMAND \<longrightarrow>
            target_decoy_list ofs = [''target''])"
proof (intro conjI impI)
  assume other: "program_name \<noteq> SEARCH_COMMAND \<and> program_name \<noteq> SEQUEST_COMMAND"
  with OutputFiles_new_num_files[OF assms] have "num_files ofs = 1" by simp
  with OutputFiles_new_labels[OF assms] show "target_decoy_list ofs = [''target'']"
    by (simp add: makeTargetDecoyList_def)
next
  assume search: "(program_name = SEARCH_COMMAND \<or> program_name = SEQUEST_COMMAND) \<and>
      num_decoy_files p = int k \<and> 1 \<le> k"
  with OutputFiles_new_num_files[OF assms] have n: "num_files ofs = 1 + int k" by auto
  from search have k: "1 \<le> k" by simp
  from makeTargetDecoyList_labels[OF k] OutputFiles_new_labels[OF assms] n
  have labels: "length (target_decoy_list ofs) = 1 + k"
    "target_decoy_list ofs ! 0 = ''target''"
    "k = 1 \<longrightarrow> target_decoy_list ofs = [''target'', ''decoy'']"
    "2 \<le> k \<longrightarrow> (\<forall>i. 1 \<le> i \<and> i \<le> k \<longrightarrow>
        target_decoy_list ofs ! i = ''decoy-'' @ decimal i)"
    by auto
  show "length (target_decoy_list ofs) = 1 + k" by (rule labels(1))
  show "target_decoy_list ofs ! 0 = ''target''" by (rule labels(2))
  show "target_decoy_list ofs = [''target'', ''decoy'']" if "k = 1"
    using that labels(3) by simp
  show "\<forall>i. 1 \<le> i \<and> i \<le> k \<longrightarrow>
      (\<exists>ds. target_decoy_list ofs ! i = ''decoy-'' @ ds \<and> is_decimal_of ds i)" if "2 \<le> k"
  proof (intro allI impI)
    fix i
    assume "1 \<le> i \<and> i \<le> k"
    with that labels(4) have "target_decoy_list ofs ! i = ''decoy-'' @ decimal i" by simp
    then show "\<exists>ds. target_decoy_list ofs ! i = ''decoy-'' @ ds \<and> is_decimal_of ds i"
      using decimal_is_decimal[of i] by blast
  qed
qed

text \<open>
  Sequest with three decoy files and search with twelve: the labels run from
  \<open>decoy-1\<close> to \<open>decoy-3\<close> and to \<open>decoy-12\<close>; the label at position 11 is
  \<open>decoy-11\<close>, whose numeral has the value 11.
\<close>

theorem OutputFiles_new_target_decoy_list_witness:
  "target_decoy_list (the (OutputFiles_new (decoy_parameters 3) SEQUEST_COMMAND)) =
     [''target'', ''decoy-1'', ''decoy-2'', ''decoy-3''] \<and>
   length (target_decoy_list (the (OutputFiles_new (decoy_parameters 12) SEARCH_COMMAND))) =
     1 + 12 \<and>
   target_decoy_list (the (OutputFiles_new (decoy_parameters 12) SEARCH_COMMAND)) ! 11 =
     ''decoy-11'' \<and>
   is_decimal_of ''11'' 11"
proof -
  have p: "num_decoy_files (decoy_parameters 12) = int 12"
    by (simp add: decoy_parameters_def)
  from labels_of_searches(5)
  obtain ofs where ofs: "OutputFiles_new (decoy_parameters 12) SEARCH_COMMAND = Some ofs"
    by auto
  from OutputFiles_new_target_decoy_list[OF ofs, of 12] p
  have "length (target_decoy_list ofs) = 1 + 12"
    and "\<exists>ds. target_decoy_list ofs ! 11 = ''decoy-'' @ ds \<and> is_decimal_of ds 11"
    by simp_all
  moreover have "target_decoy_list ofs ! 11 = ''decoy-11''"
    using labels_of_searches(3) ofs by simp
  ultimately have "length (target_decoy_list ofs) = 1 + 12"
    "target_decoy_list ofs ! 11 = ''decoy-11''" "is_decimal_of ''11'' 11"
    by auto
  with ofs labels_of_searches(2) show ?thesis by simp
qed

text \<open>
  C7 as the specification states it fails for a command other than search and
  sequest: with \<open>num-decoy-files = 2\<close>, percolator has the one label \<open>target\<close>, not
  three labels.
\<close>

theorem OutputFiles_new_percolator_single_label:
  "num_decoy_files two_decoy_parameters = 2 \<and>
   OutputFiles_new two_decoy_parameters PERCOLATOR_COMMAND \<noteq> None \<and>
   target_decoy_list (the (OutputFiles_new two_decoy_parameters PERCOLATOR_COMMAND)) =
     [''target''] \<and>
   length (target_decoy_list (the (OutputFiles_new two_decoy_parameters PERCOLATOR_COMMAND))) \<noteq>
     1 + 2"
proof -
  have n: "num_decoy_files two_decoy_parameters = 2"
    by (simp add: two_decoy_parameters_def)
  show ?thesis
    by (simp add: OutputFiles_new_percolator n)
qed

subsection \<open>C10: writeMatches without a target collection\<close>

text \<open>
  C10. In every state and for every array of decoy collections, whatever its size,
  \<open>writeMatches\<close> with a \<open>NULL\<close> target collection returns at once: no fatal error,
  and every file (and the XML counter) is as it was.
\<close>

theorem writeMatches_null_target:
  "writeMatches ofs index None decoy_matches_array rank_type spectrum = Inr (ofs, index)"
  by (simp add: writeMatches_def)

section \<open>Properties of the tab-delimited reader\<close>

subsection \<open>Helper facts about the reader\<close>

lemma push_back_empty_eq:
  "push_back_empty columns cells = cells @ replicate (columns - length cells) []"
proof (induction columns cells rule: push_back_empty.induct)
  case (1 columns cells)
  show ?case
  proof (cases "length cells < columns")
    case True
    then have "columns - length cells = Suc (columns - Suc (length cells))" by simp
    with 1[OF True] True show ?thesis
      by (simp add: push_back_empty.simps[of columns cells] replicate_app_Cons_same)
  next
    case False
    then show ?thesis by (simp add: push_back_empty.simps[of columns cells])
  qed
qed

lemma read_next_line_fields:
  "carp_log (read_next_line r) = carp_log r"
  "column_mismatch_warned (read_next_line r) = column_mismatch_warned r"
  "data (read_next_line r) = data r"
  "column_names (read_next_line r) = column_names r"
  by (simp_all add: read_next_line_def split: prod.splits)

lemma next_at_short_row:
  assumes "short_row tokenize s"
  shows "data (DelimitedFileReader_next tokenize s) = padded_row tokenize s"
    and "column_mismatch_warned (DelimitedFileReader_next tokenize s)"
    and "carp_log (DelimitedFileReader_next tokenize s) =
           carp_log s @ (if column_mismatch_warned s then [] else mismatch_warning tokenize s)"
  using assms
  by (simp_all add: short_row_def padded_row_def mismatch_warning_def
        DelimitedFileReader_next_def Let_def read_next_line_fields push_back_empty_eq)

lemma next_at_other_row:
  assumes "\<not> short_row tokenize s"
  shows "column_mismatch_warned (DelimitedFileReader_next tokenize s) = column_mismatch_warned s"
    and "carp_log (DelimitedFileReader_next tokenize s) = carp_log s"
  using assms
  by (simp_all add: short_row_def DelimitedFileReader_next_def Let_def read_next_line_fields)

lemma next_funpow_warnings:
  assumes "\<not> column_mismatch_warned s0"
  shows "column_mismatch_warned ((DelimitedFileReader_next tokenize ^^ m) s0) =
           (\<exists>j<m. short_row tokenize ((DelimitedFileReader_next tokenize ^^ j) s0)) \<and>
         carp_log ((DelimitedFileReader_next tokenize ^^ m) s0) =
           carp_log s0 @
             (if \<exists>j<m. short_row tokenize ((DelimitedFileReader_next tokenize ^^ j) s0)
              then mismatch_warning tokenize
                     ((DelimitedFileReader_next tokenize ^^
                         (LEAST j. short_row tokenize
                                     ((DelimitedFileReader_next tokenize ^^ j) s0))) s0)
              else [])"
proof -
  define R where "R j = (DelimitedFileReader_next tokenize ^^ j) s0" for j
  define short where "short j = short_row tokenize (R j)" for j
  define P where "P k = (\<exists>j<k. short j)" for k
  define W where "W = mismatch_warning tokenize (R (LEAST j. short j))"
  have step: "R (Suc k) = DelimitedFileReader_next tokenize (R k)" for k
    by (simp add: R_def)
  have R0: "R 0 = s0" by (simp add: R_def)
  have P0: "\<not> P 0" by (simp add: P_def)
  have PS: "P (Suc k) = (P k \<or> short k)" for k
    unfolding P_def using less_Suc_eq by auto
  have inv: "column_mismatch_warned (R k) = P k \<and>
      carp_log (R k) = carp_log s0 @ (if P k then W else [])" for k
  proof (induction k)
    case 0
    from assms P0 show ?case by (simp add: R0)
  next
    case (Suc k)
    show ?case
    proof (cases "P k")
      case True
      with Suc have w: "column_mismatch_warned (R k)"
        and log: "carp_log (R k) = carp_log s0 @ W" by simp_all
      from True have p: "P (Suc k)" by (simp add: PS)
      have "column_mismatch_warned (R (Suc k)) \<and> carp_log (R (Suc k)) = carp_log (R k)"
      proof (cases "short k")
        case True
        then have "short_row tokenize (R k)" by (simp add: short_def)
        from next_at_short_row(2,3)[OF this] w show ?thesis by (simp add: step)
      next
        case False
        then have "\<not> short_row tokenize (R k)" by (simp add: short_def)
        from next_at_other_row[OF this] w show ?thesis by (simp add: step)
      qed
      with log p show ?thesis by simp
    next
      case False
      with Suc have nw: "\<not> column_mismatch_warned (R k)"
        and log: "carp_log (R k) = carp_log s0" by simp_all
      show ?thesis
      proof (cases "short k")
        case True
        then have sr: "short_row tokenize (R k)" by (simp add: short_def)
        from True have p: "P (Suc k)" by (simp add: PS)
        have "(LEAST j. short j) = k"
        proof (rule Least_equality)
          show "short k" by (rule True)
          fix y assume y: "short y"
          show "k \<le> y"
          proof (rule ccontr)
            assume "\<not> k \<le> y"
            then have "y < k" by simp
            with y have "P k" unfolding P_def by blast
            with False show False by contradiction
          qed
        qed
        then have W: "W = mismatch_warning tokenize (R k)" by (simp add: W_def)
        from next_at_short_row(2,3)[OF sr] nw log W p show ?thesis
          by (simp add: step)
      next
        case ns: False
        then have "\<not> short_row tokenize (R k)" by (simp add: short_def)
        from next_at_other_row[OF this] nw log False ns show ?thesis
          by (simp add: step PS)
      qed
    qed
  qed
  from inv[of m] show ?thesis
    unfolding P_def W_def short_def R_def .
qed

lemma rows_read_Suc:
  "rows_read tokenize r name contents hasHeader (Suc k) =
     DelimitedFileReader_next tokenize (rows_read tokenize r name contents hasHeader k)"
  by (simp add: rows_read_def)

lemma loadData_header_resets_flag:
  "\<not> column_mismatch_warned (fst (loadData_header tokenize r name contents hasHeader))"
  by (simp add: loadData_header_def Let_def read_next_line_fields)

lemma loadData_header_log:
  "\<not> snd (loadData_header tokenize r name contents hasHeader) \<Longrightarrow>
     carp_log (fst (loadData_header tokenize r name contents hasHeader)) = carp_log r"
  by (simp add: loadData_header_def Let_def read_next_line_fields split: if_splits)

lemma loadData_funpow:
  "(DelimitedFileReader_next tokenize ^^ k) (loadData tokenize r name contents hasHeader) =
     rows_read tokenize r name contents hasHeader
       (if \<not> snd (loadData_header tokenize r name contents hasHeader) \<and>
           has_next (rows_read tokenize r name contents hasHeader 0)
        then Suc k else k)"
  by (simp add: loadData_def rows_read_def funpow_swap1 split: prod.splits)

text \<open>
  The file \<open>short_rows_file\<close>, read by a reader whose flag is still set from an earlier
  file: the reader after the header, and after one and two calls of \<open>next()\<close>.
\<close>

lemma sample_header:
  "loadData_header split_tokenize warned_reader ''f'' (Some short_rows_file) True =
     (\<lparr> column_names = [''a'', ''b'', ''c''], data = [], current_data_string = [],
        next_data_string = [CHR ''1'', CHR 0x09, CHR ''2'', CHR 0x09, CHR ''3''],
        current_row = 0, has_next = True, has_current = False,
        column_mismatch_warned = False, has_header = True, file_name = ''f'',
        num_rows_valid = False,
        file_ptr = \<lparr> lines_left = [[CHR ''4'', CHR 0x09, CHR ''5''], ''6''],
                     ends_with_newline = True, good = True \<rparr>,
        carp_log = [] \<rparr>, False)"
  by (simp add: loadData_header_def Let_def read_next_line_def getline_def open_fstream_def
        warned_reader_def fresh_reader_def short_rows_file_def split_tokenize_def TAB_def)

lemma sample_rows_0:
  "rows_read split_tokenize warned_reader ''f'' (Some short_rows_file) True 0 =
     \<lparr> column_names = [''a'', ''b'', ''c''], data = [], current_data_string = [],
        next_data_string = [CHR ''1'', CHR 0x09, CHR ''2'', CHR 0x09, CHR ''3''],
        current_row = 0, has_next = True, has_current = False,
        column_mismatch_warned = False, has_header = True, file_name = ''f'',
        num_rows_valid = False,
        file_ptr = \<lparr> lines_left = [[CHR ''4'', CHR 0x09, CHR ''5''], ''6''],
                     ends_with_newline = True, good = True \<rparr>,
        carp_log = [] \<rparr>"
  by (simp add: rows_read_def sample_header)

lemma sample_rows_1:
  "rows_read split_tokenize warned_reader ''f'' (Some short_rows_file) True (Suc 0) =
     \<lparr> column_names = [''a'', ''b'', ''c''], data = [''1'', ''2'', ''3''],
        current_data_string = [CHR ''1'', CHR 0x09, CHR ''2'', CHR 0x09, CHR ''3''],
        next_data_string = [CHR ''4'', CHR 0x09, CHR ''5''],
        current_row = 1, has_next = True, has_current = True,
        column_mismatch_warned = False, has_header = True, file_name = ''f'',
        num_rows_valid = False,
        file_ptr = \<lparr> lines_left = [''6''], ends_with_newline = True, good = True \<rparr>,
        carp_log = [] \<rparr>"
  unfolding rows_read_Suc sample_rows_0
  by (simp add: DelimitedFileReader_next_def Let_def read_next_line_def getline_def
        split_tokenize_def TAB_def)

lemma sample_rows_2:
  "rows_read split_tokenize warned_reader ''f'' (Some short_rows_file) True (Suc (Suc 0)) =
     \<lparr> column_names = [''a'', ''b'', ''c''], data = [''4'', ''5'', []],
        current_data_string = [CHR ''4'', CHR 0x09, CHR ''5''],
        next_data_string = ''6'',
        current_row = 2, has_next = True, has_current = True,
        column_mismatch_warned = True, has_header = True, file_name = ''f'',
        num_rows_valid = False,
        file_ptr = \<lparr> lines_left = [], ends_with_newline = True, good = True \<rparr>,
        carp_log = [ColumnCountWarning 2 2 3,
                    CurrentLineWarning [CHR ''4'', CHR 0x09, CHR ''5''],
                    SuppressingWarning] \<rparr>"
  unfolding rows_read_Suc[of _ _ _ _ _ "Suc 0"] sample_rows_1
  by (simp add: DelimitedFileReader_next_def Let_def read_next_line_def getline_def
        split_tokenize_def TAB_def push_back_empty_eq numeral_3_eq_3)

lemma sample_short:
  "\<not> short_row split_tokenize
       (rows_read split_tokenize warned_reader ''f'' (Some short_rows_file) True 0)"
  "short_row split_tokenize
     (rows_read split_tokenize warned_reader ''f'' (Some short_rows_file) True (Suc 0))"
  "short_row split_tokenize
     (rows_read split_tokenize warned_reader ''f'' (Some short_rows_file) True (Suc (Suc 0)))"
  "mismatch_warning split_tokenize
     (rows_read split_tokenize warned_reader ''f'' (Some short_rows_file) True (Suc 0)) =
     [ColumnCountWarning 2 2 3, CurrentLineWarning [CHR ''4'', CHR 0x09, CHR ''5''],
      SuppressingWarning]"
  "padded_row split_tokenize
     (rows_read split_tokenize warned_reader ''f'' (Some short_rows_file) True (Suc 0)) =
     [''4'', ''5'', []]"
  "padded_row split_tokenize
     (rows_read split_tokenize warned_reader ''f'' (Some short_rows_file) True (Suc (Suc 0))) =
     [''6'', [], []]"
  unfolding sample_rows_0 sample_rows_1 sample_rows_2
  by (simp_all add: short_row_def mismatch_warning_def padded_row_def split_tokenize_def TAB_def)

lemma sample_least:
  "(LEAST j. short_row split_tokenize
       (rows_read split_tokenize warned_reader ''f'' (Some short_rows_file) True j)) = Suc 0"
proof (rule Least_equality)
  show "short_row split_tokenize
     (rows_read split_tokenize warned_reader ''f'' (Some short_rows_file) True (Suc 0))"
    by (rule sample_short(2))
next
  fix y
  assume "short_row split_tokenize
     (rows_read split_tokenize warned_reader ''f'' (Some short_rows_file) True y)"
  with sample_short(1) have "y \<noteq> 0" by (cases y) auto
  then show "Suc 0 \<le> y" by simp
qed

subsection \<open>C4: rows with fewer cells than the header\<close>

text \<open>
  C4. Let \<open>loadData\<close> open a file, whatever the reader has read and warned about
  before. The readers that follow are \<open>rows_read ... k\<close>: \<open>loadData\<close> returns the
  reader after the first call of \<open>next()\<close> when there is a row to read (after none when
  it returns early or the file has no row), and every call of \<open>next()\<close> by the caller
  leads to the following one. Whenever the line to be read has fewer cells than the
  header has columns, the row after the call is the cells followed by empty strings
  up to the number of columns. What the reader has printed after \<open>m\<close> calls is what it
  had printed when the header was read (nothing new if \<open>loadData\<close> did not return
  early), followed, if one of the \<open>m\<close> rows was short, by the three warning lines
  for the first short row of the file, and by nothing else: no later short row prints
  anything. \<open>next()\<close> has no failing path: it returns a reader in every case.
\<close>

theorem loadData_column_mismatch:
  "(\<forall>k. (DelimitedFileReader_next tokenize ^^ k) (loadData tokenize r name contents hasHeader) =
         rows_read tokenize r name contents hasHeader
           (if \<not> snd (loadData_header tokenize r name contents hasHeader) \<and>
               has_next (rows_read tokenize r name contents hasHeader 0)
            then Suc k else k)) \<and>
   (\<not> snd (loadData_header tokenize r name contents hasHeader) \<longrightarrow>
      carp_log (rows_read tokenize r name contents hasHeader 0) = carp_log r) \<and>
   (\<forall>j. short_row tokenize (rows_read tokenize r name contents hasHeader j) \<longrightarrow>
         data (rows_read tokenize r name contents hasHeader (Suc j)) =
           padded_row tokenize (rows_read tokenize r name contents hasHeader j)) \<and>
   (\<forall>m. carp_log (rows_read tokenize r name contents hasHeader m) =
         carp_log (rows_read tokenize r name contents hasHeader 0) @
           (if \<exists>j<m. short_row tokenize (rows_read tokenize r name contents hasHeader j)
            then mismatch_warning tokenize
                   (rows_read tokenize r name contents hasHeader
                      (LEAST j. short_row tokenize
                                  (rows_read tokenize r name contents hasHeader j)))
            else []))"
proof (intro conjI allI impI)
  fix k
  show "(DelimitedFileReader_next tokenize ^^ k) (loadData tokenize r name contents hasHeader) =
      rows_read tokenize r name contents hasHeader
        (if \<not> snd (loadData_header tokenize r name contents hasHeader) \<and>
            has_next (rows_read tokenize r name contents hasHeader 0)
         then Suc k else k)"
    by (rule loadData_funpow)
next
  assume "\<not> snd (loadData_header tokenize r name contents hasHeader)"
  then show "carp_log (rows_read tokenize r name contents hasHeader 0) = carp_log r"
    by (simp add: rows_read_def loadData_header_log)
next
  fix j
  assume "short_row tokenize (rows_read tokenize r name contents hasHeader j)"
  then show "data (rows_read tokenize r name contents hasHeader (Suc j)) =
      padded_row tokenize (rows_read tokenize r name contents hasHeader j)"
    by (simp add: rows_read_Suc next_at_short_row(1))
next
  fix m
  from next_funpow_warnings[where tokenize = tokenize and m = m,
      OF loadData_header_resets_flag[of tokenize r name contents hasHeader]]
  show "carp_log (rows_read tokenize r name contents hasHeader m) =
      carp_log (rows_read tokenize r name contents hasHeader 0) @
        (if \<exists>j<m. short_row tokenize (rows_read tokenize r name contents hasHeader j)
         then mismatch_warning tokenize
                (rows_read tokenize r name contents hasHeader
                   (LEAST j. short_row tokenize
                               (rows_read tokenize r name contents hasHeader j)))
         else [])"
    unfolding rows_read_def by simp
qed

text \<open>
  A file with the header \<open>a, b, c\<close> and the rows \<open>1, 2, 3\<close>, then \<open>4, 5\<close>, then \<open>6\<close>,
  loaded by a reader whose flag is set. \<open>loadData\<close> reads the header and the first
  row and prints nothing. The next call reads \<open>4, 5\<close>, pads it and prints the warning;
  the call after it reads \<open>6\<close>, pads it and prints nothing more.
\<close>

theorem loadData_column_mismatch_witness:
  "column_mismatch_warned warned_reader \<and>
   loadData split_tokenize warned_reader ''f'' (Some short_rows_file) True =
     rows_read split_tokenize warned_reader ''f'' (Some short_rows_file) True 1 \<and>
   DelimitedFileReader_next split_tokenize
     (loadData split_tokenize warned_reader ''f'' (Some short_rows_file) True) =
     rows_read split_tokenize warned_reader ''f'' (Some short_rows_file) True 2 \<and>
   (DelimitedFileReader_next split_tokenize ^^ 2)
     (loadData split_tokenize warned_reader ''f'' (Some short_rows_file) True) =
     rows_read split_tokenize warned_reader ''f'' (Some short_rows_file) True 3 \<and>
   data (rows_read split_tokenize warned_reader ''f'' (Some short_rows_file) True 1) =
     [''1'', ''2'', ''3''] \<and>
   carp_log (rows_read split_tokenize warned_reader ''f'' (Some short_rows_file) True 1) = [] \<and>
   data (rows_read split_tokenize warned_reader ''f'' (Some short_rows_file) True 2) =
     [''4'', ''5'', []] \<and>
   carp_log (rows_read split_tokenize warned_reader ''f'' (Some short_rows_file) True 2) =
     [ColumnCountWarning 2 2 3, CurrentLineWarning [CHR ''4'', CHR 0x09, CHR ''5''],
      SuppressingWarning] \<and>
   data (rows_read split_tokenize warned_reader ''f'' (Some short_rows_file) True 3) =
     [''6'', [], []] \<and>
   carp_log (rows_read split_tokenize warned_reader ''f'' (Some short_rows_file) True 3) =
     [ColumnCountWarning 2 2 3, CurrentLineWarning [CHR ''4'', CHR 0x09, CHR ''5''],
      SuppressingWarning]"
proof -
  let ?row = "rows_read split_tokenize warned_reader ''f'' (Some short_rows_file) True"
  note main = loadData_column_mismatch[of split_tokenize warned_reader "''f''"
      "Some short_rows_file" True]
  have notret: "\<not> snd (loadData_header split_tokenize warned_reader ''f''
                          (Some short_rows_file) True)"
    by (simp add: sample_header)
  have more: "has_next (?row 0)" by (simp add: sample_rows_0)
  have one: "(1::nat) = Suc 0" and two: "(2::nat) = Suc (Suc 0)"
    and three: "(3::nat) = Suc (Suc (Suc 0))" by simp_all
  from main notret more have run: "(DelimitedFileReader_next split_tokenize ^^ k)
      (loadData split_tokenize warned_reader ''f'' (Some short_rows_file) True) =
      ?row (Suc k)" for k by simp
  from main notret have log0: "carp_log (?row 0) = carp_log warned_reader" by blast
  have start: "carp_log warned_reader = []"
    by (simp add: warned_reader_def fresh_reader_def)
  from main have pad: "short_row split_tokenize (?row j) \<Longrightarrow>
      data (?row (Suc j)) = padded_row split_tokenize (?row j)" for j by blast
  from main have log: "carp_log (?row m) = carp_log (?row 0) @
      (if \<exists>j<m. short_row split_tokenize (?row j)
       then mismatch_warning split_tokenize
              (?row (LEAST j. short_row split_tokenize (?row j)))
       else [])" for m by blast
  have none1: "\<not> (\<exists>j<Suc 0. short_row split_tokenize (?row j))"
    using sample_short(1) by simp
  have some2: "\<exists>j<Suc (Suc 0). short_row split_tokenize (?row j)"
    using sample_short(2) by blast
  have some3: "\<exists>j<Suc (Suc (Suc 0)). short_row split_tokenize (?row j)"
    using sample_short(2) by blast
  have "column_mismatch_warned warned_reader" by (simp add: warned_reader_def)
  moreover from run[of 0] have "loadData split_tokenize warned_reader ''f''
      (Some short_rows_file) True = ?row 1" by simp
  moreover from run[of "Suc 0"] have "DelimitedFileReader_next split_tokenize
      (loadData split_tokenize warned_reader ''f'' (Some short_rows_file) True) = ?row 2"
    by (simp add: two)
  moreover from run[of "Suc (Suc 0)"] have "(DelimitedFileReader_next split_tokenize ^^ 2)
      (loadData split_tokenize warned_reader ''f'' (Some short_rows_file) True) = ?row 3"
    by (simp add: two three)
  moreover have "data (?row 1) = [''1'', ''2'', ''3'']"
    by (simp add: sample_rows_1)
  moreover from log[of "Suc 0"] none1 log0 start have "carp_log (?row 1) = []" by simp
  moreover from pad[OF sample_short(2)] have "data (?row 2) = [''4'', ''5'', []]"
    by (simp add: sample_short(5) two)
  moreover from log[of "Suc (Suc 0)"] some2 log0 start
  have "carp_log (?row 2) =
     [ColumnCountWarning 2 2 3, CurrentLineWarning [CHR ''4'', CHR 0x09, CHR ''5''],
      SuppressingWarning]"
    by (simp add: sample_least sample_short(4) two)
  moreover from pad[OF sample_short(3)] have "data (?row 3) = [''6'', [], []]"
    by (simp add: sample_short(6) three)
  moreover from log[of "Suc (Suc (Suc 0))"] some3 log0 start
  have "carp_log (?row 3) =
     [ColumnCountWarning 2 2 3, CurrentLineWarning [CHR ''4'', CHR 0x09, CHR ''5''],
      SuppressingWarning]"
    by (simp add: sample_least sample_short(4) three)
  ultimately show ?thesis by blast
qed

subsection \<open>C5: infinities and empty cells\<close>

lemma getFloat_getDouble_infinity:
  assumes "col_idx < length (data r)"
  shows "data r ! col_idx = ''Inf'' \<Longrightarrow>
           getFloat from_string u r col_idx = Inr PlusInfinity \<and>
           getDouble from_string u r col_idx = Inr PlusInfinity"
    and "data r ! col_idx = ''-Inf'' \<Longrightarrow>
           getFloat from_string u r col_idx = Inr MinusInfinity \<and>
           getDouble from_string u r col_idx = Inr MinusInfinity"
    and "data r ! col_idx = [] \<Longrightarrow> getDouble from_string u r col_idx = Inr (Finite 0)"
  using assms by (simp_all add: getFloat_def getDouble_def getString_def)

text \<open>
  C5 at an empty cell. \<open>getDouble\<close> answers \<open>0.0\<close> itself; \<open>getFloat\<close> has no such
  branch and answers whatever \<open>from_string\<close> leaves in the uninitialised local of
  \<open>getValue\<close> when it is given the empty string; when \<open>from_string\<close> leaves its
  target alone, that is the uninitialised value itself, 42 in the last line.
\<close>

theorem getFloat_empty_cell:
  "getDouble from_string u (r\<lparr>data := [[]]\<rparr>) 0 = Inr (Finite 0) \<and>
   getFloat from_string u (r\<lparr>data := [[]]\<rparr>) 0 = Inr (from_string u []) \<and>
   getFloat (\<lambda>target str. target) (Finite 42) (r\<lparr>data := [[]]\<rparr>) 0 = Inr (Finite 42)"
  by (simp add: getFloat_def getDouble_def getValue_def getString_def)

section \<open>Properties of print-processed-spectra\<close>

subsection \<open>C6: the stop-after parameter\<close>




section \<open>Properties of hit collections\<close>

subsection \<open>C9: adding a hit\<close>

text \<open>
  C9. When \<open>0 \<le> hit_total < _MAX_NUMBER_HITS\<close>, \<open>hit_collection_add_hit\<close> stores the hit
  at index \<open>hit_total\<close>, adds one to \<open>hit_total\<close> and returns \<open>TRUE\<close>. In every other
  state its one write is outside the array. It never returns \<open>FALSE\<close> and never
  leaves the collection as it was: a full collection is not refused, it is
  overrun.
\<close>

theorem hit_collection_add_hit_unchecked:
  "(0 \<le> hit_total c \<and> hit_total c < int MAX_NUMBER_HITS \<longrightarrow>
      hit_collection_add_hit MAX_NUMBER_HITS c hit =
        Inr (c\<lparr>hits := (hits c)[nat (hit_total c) := hit], hit_total := hit_total c + 1\<rparr>,
             True)) \<and>
   (\<not> (0 \<le> hit_total c \<and> hit_total c < int MAX_NUMBER_HITS) \<longrightarrow>
      hit_collection_add_hit MAX_NUMBER_HITS c hit = Inl (WriteOutsideHits (hit_total c))) \<and>
   (\<forall>c' result. hit_collection_add_hit MAX_NUMBER_HITS c hit = Inr (c', result) \<longrightarrow>
      result \<and> c' \<noteq> c \<and> hit_total c' = hit_total c + 1 \<and>
      (length (hits c) = MAX_NUMBER_HITS \<longrightarrow> hits c' ! nat (hit_total c) = hit))"
proof -
  have "c\<lparr>hits := h, hit_total := hit_total c + 1\<rparr> \<noteq> c" for h
  proof
    assume "c\<lparr>hits := h, hit_total := hit_total c + 1\<rparr> = c"
    then have "hit_total (c\<lparr>hits := h, hit_total := hit_total c + 1\<rparr>) = hit_total c"
      by simp
    then show False by simp
  qed
  then show ?thesis
    by (auto simp: hit_collection_add_hit_def)
qed

text \<open>
  A collection with room for two hits: the first two calls store their hits, the third
  writes at index 2, outside the array.
\<close>

theorem hit_collection_add_hit_unchecked_witness:
  "hit_collection_add_hit 2 (allocate_hit_collection 2) (Some 7) =
     Inr (\<lparr> hits = [Some 7, None], hit_total = 1 \<rparr>, True) \<and>
   hit_collection_add_hit 2 \<lparr> hits = [Some 7, None], hit_total = 1 \<rparr> (Some 8) =
     Inr (\<lparr> hits = [Some 7, Some 8], hit_total = 2 \<rparr>, True) \<and>
   hit_collection_add_hit 2 \<lparr> hits = [Some 7, Some 8], hit_total = 2 \<rparr> (Some 9) =
     Inl (WriteOutsideHits 2)"
  using hit_collection_add_hit_unchecked[of "allocate_hit_collection 2" 2 "Some 7"]
    hit_collection_add_hit_unchecked[of "\<lparr> hits = [Some 7, None], hit_total = 1 \<rparr>" 2 "Some 8"]
    hit_collection_add_hit_unchecked[of "\<lparr> hits = [Some 7, Some 8], hit_total = 2 \<rparr>" 2 "Some 9"]
  by (simp add: allocate_hit_collection_def numeral_2_eq_2)

section \<open>Properties of the comparators\<close>

subsection \<open>Helper facts about the comparators\<close>

lemma compare_sequence_range: "compare_sequence a b \<in> {- 1, 0, 1}"
  by (induction a b rule: compare_sequence.induct) auto

lemma compare_sequence_eq_0: "compare_sequence a b = 0 \<longleftrightarrow> a = b"
  by (induction a b rule: compare_sequence.induct) auto

lemma compare_sequence_flip: "compare_sequence b a = - compare_sequence a b"
  by (induction a b rule: compare_sequence.induct) auto

lemma compare_sequence_lexord:
  "compare_sequence a b < 0 \<longleftrightarrow> (a, b) \<in> lexord {(x, y). (of_char x :: nat) < of_char y}"
  by (induction a b rule: compare_sequence.induct) auto

lemma compare_sequence_Cons_le:
  "compare_sequence (x # xs) (y # ys) \<le> 0 \<longleftrightarrow>
     (of_char x :: nat) < of_char y \<or>
     ((of_char x :: nat) = of_char y \<and> compare_sequence xs ys \<le> 0)"
  by auto

lemma compare_sequence_Nil_le:
  "compare_sequence [] b \<le> 0" "compare_sequence (x # xs) [] \<le> 0 \<longleftrightarrow> False"
  by (cases b) simp_all

lemma compare_sequence_trans:
  "compare_sequence a b \<le> 0 \<Longrightarrow> compare_sequence b c \<le> 0 \<Longrightarrow> compare_sequence a c \<le> 0"
proof (induction a arbitrary: b c)
  case Nil
  show ?case by (rule compare_sequence_Nil_le(1))
next
  case (Cons x xs)
  from Cons.prems(1) obtain y ys where b: "b = y # ys"
    by (cases b) (simp_all add: compare_sequence_Nil_le)
  from Cons.prems(2) b obtain z zs where c: "c = z # zs"
    by (cases c) (simp_all add: compare_sequence_Nil_le)
  from Cons.prems(1) have 1: "(of_char x :: nat) < of_char y \<or>
      ((of_char x :: nat) = of_char y \<and> compare_sequence xs ys \<le> 0)"
    unfolding b compare_sequence_Cons_le .
  from Cons.prems(2) have 2: "(of_char y :: nat) < of_char z \<or>
      ((of_char y :: nat) = of_char z \<and> compare_sequence ys zs \<le> 0)"
    unfolding b c compare_sequence_Cons_le .
  have "(of_char x :: nat) < of_char z \<or>
      ((of_char x :: nat) = of_char z \<and> compare_sequence xs zs \<le> 0)"
    using 1 2 Cons.IH[of ys zs] by auto
  then show ?case unfolding c compare_sequence_Cons_le .
qed

lemma compare_keys_eq_0: "compare_keys d a b = 0 \<longleftrightarrow> a = b"
  by (simp add: compare_keys_def compare_sequence_eq_0 prod_eq_iff)

lemma compare_keys_flip: "compare_keys d b a = - compare_keys d a b"
proof (cases "fst a = fst b")
  case True
  with compare_sequence_flip[of "snd a" "snd b"] show ?thesis
    by (simp add: compare_keys_def)
next
  case False
  then have "fst a < fst b \<or> fst b < fst a" by auto
  then show ?thesis
    by (cases d) (auto simp: compare_keys_def)
qed

lemma compare_keys_trans:
  assumes "compare_keys d a b \<le> 0" "compare_keys d b c \<le> 0"
  shows "compare_keys d a c \<le> 0"
proof -
  have neg: "(- 1 :: int) \<le> 0" "\<not> (1 :: int) \<le> 0" by simp_all
  show ?thesis
  proof (cases "fst a = fst b")
    case ab: True
    show ?thesis
    proof (cases "fst b = fst c")
      case bc: True
      from assms ab bc have "compare_sequence (snd a) (snd b) \<le> 0"
        "compare_sequence (snd b) (snd c) \<le> 0"
        by (simp_all add: compare_keys_def)
      then have "compare_sequence (snd a) (snd c) \<le> 0" by (rule compare_sequence_trans)
      with ab bc show ?thesis by (simp add: compare_keys_def)
    next
      case bc: False
      with assms(2) ab show ?thesis by (simp add: compare_keys_def)
    qed
  next
    case ab: False
    show ?thesis
    proof (cases "fst b = fst c")
      case bc: True
      with assms(1) ab show ?thesis by (simp add: compare_keys_def)
    next
      case bc: False
      from assms(1) ab have 1: "(fst b < fst a) = d"
        by (simp add: compare_keys_def split: if_splits)
      from assms(2) bc have 2: "(fst c < fst b) = d"
        by (simp add: compare_keys_def split: if_splits)
      from 1 2 ab bc have "fst a \<noteq> fst c \<and> (fst c < fst a) = d"
        by (cases d) auto
      then show ?thesis by (simp add: compare_keys_def)
    qed
  qed
qed

lemma sorted_keys_unique:
  "sorted_wrt (\<lambda>a b. compare_keys d a b \<le> 0) ks \<Longrightarrow>
   sorted_wrt (\<lambda>a b. compare_keys d a b \<le> 0) ls \<Longrightarrow>
   mset ks = mset ls \<Longrightarrow> ks = ls"
proof (induction ks arbitrary: ls)
  case Nil
  then show ?case by simp
next
  case (Cons k ks)
  from Cons.prems(3) obtain l ls' where ls: "ls = l # ls'"
    by (cases ls) auto
  have refl: "compare_keys d x x \<le> 0" for x
    using compare_keys_eq_0[of d x x] by simp
  have sets: "set (k # ks) = set ls" by (rule mset_eq_setD[OF Cons.prems(3)])
  have k_in: "k \<in> set ls" unfolding sets[symmetric] by simp
  have kl: "compare_keys d l k \<le> 0"
  proof (cases "k = l")
    case True
    then show ?thesis using refl[of l] by simp
  next
    case False
    with k_in ls have "k \<in> set ls'" by simp
    with Cons.prems(2) ls show ?thesis by simp
  qed
  have l_in: "l \<in> set (k # ks)" unfolding sets ls by simp
  have lk: "compare_keys d k l \<le> 0"
  proof (cases "l = k")
    case True
    then show ?thesis using refl[of k] by simp
  next
    case False
    with l_in have "l \<in> set ks" by simp
    with Cons.prems(1) show ?thesis by simp
  qed
  from kl lk compare_keys_flip[of d l k] have "compare_keys d k l = 0" by linarith
  then have eq: "k = l" by (simp add: compare_keys_eq_0)
  from Cons.prems(3) have "add_mset k (mset ks) = add_mset l (mset ls')"
    unfolding ls by simp
  then have m: "mset ks = mset ls'" unfolding eq by simp
  from Cons.prems(1) have s1: "sorted_wrt (\<lambda>a b. compare_keys d a b \<le> 0) ks" by simp
  from Cons.prems(2) have s2: "sorted_wrt (\<lambda>a b. compare_keys d a b \<le> 0) ls'"
    unfolding ls by simp
  have "ks = ls'" by (rule Cons.IH[OF s1 s2 m])
  then show ?case unfolding ls eq by simp
qed

lemma compare_match_xcorr_keys_inj:
  "sort_keys xcorr (m :: match) = sort_keys xcorr n \<Longrightarrow> m = n"
  by (simp add: sort_keys_def)

subsection \<open>C8: the comparators are total orders on (score, sequence)\<close>

text \<open>
  C8, for the comparator as the specification describes it (the code of the
  comparators is not among the sources). For either direction and any score:
  the comparator is zero exactly when the two matches have the same score and the
  same sequence, it is antisymmetric and transitive (a total order on the keys),
  its sign is decided by the scores when they differ and by the lexical order of
  the sequences when they are equal, so that it is not zero for equal scores and
  different sequences. Two arrangements of the same matches that are both in
  comparator order list the same keys, and for \<open>compare_match_xcorr\<close> the same
  matches: the ranked output does not depend on the order of the input.
\<close>

theorem compare_match_total_order:
  "(compare_match d score a b = 0 \<longleftrightarrow>
      score a = score b \<and> peptide_sequence a = peptide_sequence b) \<and>
   compare_match d score b a = - compare_match d score a b \<and>
   (compare_match d score a b \<le> 0 \<and> compare_match d score b c \<le> 0 \<longrightarrow>
      compare_match d score a c \<le> 0) \<and>
   (score a \<noteq> score b \<longrightarrow>
      (compare_match d score a b < 0 \<longleftrightarrow>
         (if d then score b < score a else score a < score b))) \<and>
   (score a = score b \<longrightarrow>
      (compare_match d score a b < 0 \<longleftrightarrow>
         (peptide_sequence a, peptide_sequence b)
           \<in> lexord {(x, y). (of_char x :: nat) < of_char y})) \<and>
   (score a = score b \<and> peptide_sequence a \<noteq> peptide_sequence b \<longrightarrow>
      compare_match d score a b \<noteq> 0) \<and>
   (sorted_wrt (\<lambda>m n. compare_match d score m n \<le> 0) ms \<and>
    sorted_wrt (\<lambda>m n. compare_match d score m n \<le> 0) ns \<and> mset ms = mset ns \<longrightarrow>
      map (sort_keys score) ms = map (sort_keys score) ns) \<and>
   (sorted_wrt (\<lambda>m n. compare_match_xcorr m n \<le> 0) ms \<and>
    sorted_wrt (\<lambda>m n. compare_match_xcorr m n \<le> 0) ns \<and> mset ms = mset ns \<longrightarrow>
      ms = ns)"
proof -
  have zero: "compare_match d score a b = 0 \<longleftrightarrow>
      score a = score b \<and> peptide_sequence a = peptide_sequence b"
    by (simp add: compare_match_def compare_keys_eq_0 sort_keys_def)
  have flip: "compare_match d score b a = - compare_match d score a b"
    unfolding compare_match_def by (rule compare_keys_flip)
  have trans: "compare_match d score a c \<le> 0"
    if "compare_match d score a b \<le> 0 \<and> compare_match d score b c \<le> 0"
    using that unfolding compare_match_def by (blast intro: compare_keys_trans)
  have primary: "compare_match d score a b < 0 \<longleftrightarrow>
      (if d then score b < score a else score a < score b)" if "score a \<noteq> score b"
    using that by (cases d) (auto simp: compare_match_def compare_keys_def sort_keys_def)
  have secondary: "compare_match d score a b < 0 \<longleftrightarrow>
      (peptide_sequence a, peptide_sequence b) \<in> lexord {(x, y). (of_char x :: nat) < of_char y}"
    if "score a = score b"
    using that
    by (simp add: compare_match_def compare_keys_def sort_keys_def compare_sequence_lexord)
  have unique: "map (sort_keys score') ms = map (sort_keys score') ns"
    if "sorted_wrt (\<lambda>m n. compare_match d' score' m n \<le> 0) ms \<and>
        sorted_wrt (\<lambda>m n. compare_match d' score' m n \<le> 0) ns \<and> mset ms = mset ns"
    for d' score'
  proof (rule sorted_keys_unique[of d'])
    show "sorted_wrt (\<lambda>a b. compare_keys d' a b \<le> 0) (map (sort_keys score') ms)"
      using that by (simp add: sorted_wrt_map compare_match_def)
    show "sorted_wrt (\<lambda>a b. compare_keys d' a b \<le> 0) (map (sort_keys score') ns)"
      using that by (simp add: sorted_wrt_map compare_match_def)
    from that have "mset ms = mset ns" by simp
    then show "mset (map (sort_keys score') ms) = mset (map (sort_keys score') ns)"
      by simp
  qed
  have same: "ms = ns"
    if "sorted_wrt (\<lambda>m n. compare_match_xcorr m n \<le> 0) ms \<and>
        sorted_wrt (\<lambda>m n. compare_match_xcorr m n \<le> 0) ns \<and> mset ms = mset ns"
  proof -
    from that have "map (sort_keys xcorr) ms = map (sort_keys xcorr) ns"
      unfolding compare_match_xcorr_def by (rule unique)
    moreover have "inj (sort_keys xcorr :: match \<Rightarrow> real \<times> string)"
      by (rule injI) (rule compare_match_xcorr_keys_inj)
    ultimately show ?thesis by (simp add: inj_map_eq_map)
  qed
  from zero flip trans primary secondary unique[of d score] same show ?thesis
    by blast
qed

text \<open>
  Two matches with the score 2.5 and the sequences AAK and AAR: the comparator puts
  AAK first, in both directions of the call, and the order AAR, AAK is not sorted.
\<close>

theorem compare_match_total_order_witness:
  "xcorr match_AAK = xcorr match_AAR \<and>
   peptide_sequence match_AAK \<noteq> peptide_sequence match_AAR \<and>
   compare_match_xcorr match_AAK match_AAR = - 1 \<and>
   compare_match_xcorr match_AAR match_AAK = 1 \<and>
   compare_match True xcorr match_AAK match_AAR \<noteq> 0"
proof -
  have keys: "xcorr match_AAK = xcorr match_AAR"
    "peptide_sequence match_AAK \<noteq> peptide_sequence match_AAR"
    by (simp_all add: match_AAK_def match_AAR_def)
  have v: "compare_match_xcorr match_AAK match_AAR = - 1"
    by (simp add: compare_match_xcorr_def compare_match_def compare_keys_def sort_keys_def
          match_AAK_def match_AAR_def)
  from compare_match_total_order[of True xcorr match_AAK match_AAR match_AAR "[]" "[]"] keys
  have nz: "compare_match True xcorr match_AAK match_AAR \<noteq> 0"
    and fl: "compare_match True xcorr match_AAR match_AAK =
             - compare_match True xcorr match_AAK match_AAR"
    by blast+
  from fl v have "compare_match_xcorr match_AAR match_AAK = 1"
    by (simp add: compare_match_xcorr_def)
  with keys v nz show ?thesis by simp
qed

end
